theory Spec2Isabelle
  imports Main "HOL-Library.Word" "HOL-Library.Monad_Syntax"
begin

unbundle bit_operations_syntax

section \<open>The ST7735 chip of src/main.c\<close>

text \<open>
  The chip is a single C struct mutated by callbacks of the simulator. Every C function
  that takes the struct pointer becomes a function from the state to the new state.
  Integers keep their C widths (\<open>uint8_t\<close>, \<open>uint16_t\<close>, \<open>uint32_t\<close>), so that
  every wrap-around of the program is a wrap-around of the model.
\<close>

subsection \<open>Constants\<close>

abbreviation (input) MODE_COMMAND :: "32 word" where "MODE_COMMAND \<equiv> 0"
abbreviation (input) MODE_DATA :: "32 word" where "MODE_DATA \<equiv> 1"

abbreviation (input) LOW :: "32 word" where "LOW \<equiv> 0"
abbreviation (input) HIGH :: "32 word" where "HIGH \<equiv> 1"

abbreviation (input) CMD_NOP :: "8 word" where "CMD_NOP \<equiv> 0x00"
abbreviation (input) CMD_CASET :: "8 word" where "CMD_CASET \<equiv> 0x2a"
abbreviation (input) CMD_RASET :: "8 word" where "CMD_RASET \<equiv> 0x2b"
abbreviation (input) CMD_RAMWR :: "8 word" where "CMD_RAMWR \<equiv> 0x2c"
abbreviation (input) CMD_RAMRD :: "8 word" where "CMD_RAMRD \<equiv> 0x2e"
abbreviation (input) CMD_MADCTL :: "8 word" where "CMD_MADCTL \<equiv> 0x36"

abbreviation (input) SCAN_MY :: "32 word" where "SCAN_MY \<equiv> 0x80"
abbreviation (input) SCAN_MX :: "32 word" where "SCAN_MX \<equiv> 0x40"
abbreviation (input) SCAN_MV :: "32 word" where "SCAN_MV \<equiv> 0x20"

subsection \<open>The state\<close>

text \<open>
  The fields of \<open>chip_state_t\<close> that the callbacks read or write. The pin handles are the
  constructors of \<open>pin\<close>; the bytes of \<open>spi_buffer\<close> reach the callbacks as a list.
  Two more fields record what the chip does to the outside: \<open>framebuffer\<close> is the
  sequence of \<open>buffer_write\<close> calls (byte offset, 32-bit value), oldest first, and
  \<open>stdout\<close> the command codes of the warnings printed.
\<close>

datatype pin = CS | DC | RST | SCK | MOSI

record chip_state =
  width :: "32 word"
  height :: "32 word"
  mode :: "32 word"
  command_code :: "8 word"
  command_size :: "8 word"
  command_index :: "8 word"
  command_buf :: "8 word list"
  ram_write :: bool
  active_column :: "32 word"
  column_start :: "32 word"
  column_end :: "32 word"
  active_row :: "32 word"
  row_start :: "32 word"
  row_end :: "32 word"
  scanning_direction :: "32 word"
  framebuffer :: "(32 word \<times> 32 word) list"
  stdout :: "8 word list"

subsection \<open>Reset\<close>

definition chip_reset :: "chip_state \<Rightarrow> chip_state" where
  "chip_reset chip =
     chip\<lparr>ram_write := False,
          active_column := 0,
          column_start := 0,
          column_end := 127,
          active_row := 0,
          row_start := 0,
          row_end := 35\<rparr>"


subsection \<open>Colour conversion\<close>

text \<open>
  The \<open>uint16_t\<close> argument is promoted to a wider integer before it is masked and
  shifted; none of the three shifted fields leaves 32 bits.
\<close>

definition rgb565_to_rgba :: "16 word \<Rightarrow> 32 word" where
  "rgb565_to_rgba v =
     0xff000000
     OR push_bit 19 (ucast (v AND 0x001f))
     OR push_bit 5 (ucast (v AND 0x07e0))
     OR drop_bit 8 (ucast (v AND 0xf800))"

subsection \<open>Commands\<close>

definition command_args_size :: "8 word \<Rightarrow> int" where
  "command_args_size code =
     (if code = CMD_MADCTL then 1
      else if code = CMD_CASET \<or> code = CMD_RASET then 4
      else 0)"

text \<open>
  \<open>execute_command\<close> reads the first bytes of \<open>command_buf\<close>, an array of 16 bytes.
  The two bytes of an argument are promoted before they are shifted and joined, and the
  join is cut to \<open>uint16_t\<close>. The default branch prints a warning.
\<close>

definition execute_command :: "chip_state \<Rightarrow> chip_state" where
  "execute_command chip =
     (if command_code chip = CMD_RAMWR then chip\<lparr>ram_write := True\<rparr>
      else if command_code chip = CMD_MADCTL then
        chip\<lparr>scanning_direction := ucast (command_buf chip ! 0 AND 0xfc)\<rparr>
      else if command_code chip = CMD_CASET \<or> command_code chip = CMD_RASET then
        (let arg0 :: 16 word =
               push_bit 8 (ucast (command_buf chip ! 0)) OR ucast (command_buf chip ! 1);
             arg2 :: 16 word =
               push_bit 8 (ucast (command_buf chip ! 2)) OR ucast (command_buf chip ! 3);
             set_row = (command_code chip = CMD_RASET)
         in if (if scanning_direction chip AND SCAN_MV \<noteq> 0 then \<not> set_row else set_row)
            then chip\<lparr>active_row := ucast arg0, row_start := ucast arg0, row_end := ucast arg2\<rparr>
            else chip\<lparr>active_column := ucast arg0, column_start := ucast arg0,
                       column_end := ucast arg2\<rparr>)
      else chip\<lparr>stdout := stdout chip @ [command_code chip]\<rparr>)"

text \<open>
  One round of the loop of \<open>process_command\<close> (lines 188 to 193), for the byte
  \<open>buffer[i]\<close>. \<open>process_command\<close> clears \<open>ram_write\<close> and runs the loop over the chunk.
\<close>

definition process_command_body :: "chip_state \<Rightarrow> 8 word \<Rightarrow> chip_state" where
  "process_command_body chip b =
     (let chip1 = chip\<lparr>command_code := b\<rparr>;
          chip2 = chip1\<lparr>command_size := word_of_int (command_args_size (command_code chip1))\<rparr>;
          chip3 = chip2\<lparr>command_index := 0\<rparr>
      in if command_size chip3 = 0 then execute_command chip3 else chip3)"

fun process_command_loop :: "chip_state \<Rightarrow> 8 word list \<Rightarrow> chip_state" where
  "process_command_loop chip [] = chip"
| "process_command_loop chip (b # buffer) =
     process_command_loop (process_command_body chip b) buffer"

definition process_command :: "chip_state \<Rightarrow> 8 word list \<Rightarrow> chip_state" where
  "process_command chip buffer = process_command_loop (chip\<lparr>ram_write := False\<rparr>) buffer"

text \<open>
  One round of the loop of \<open>process_command_args\<close> (lines 199 to 204). The store
  \<open>command_buf[command_index++] = buffer[i]\<close> goes into an array of 16 bytes: a store at
  an index of 16 or more is undefined behaviour in C, and \<open>None\<close> here.
\<close>

definition process_command_args_body :: "chip_state \<Rightarrow> 8 word \<Rightarrow> chip_state option" where
  "process_command_args_body chip b =
     (if command_index chip < command_size chip then
        (if unat (command_index chip) < 16 then
           (let chip1 = chip\<lparr>command_buf := (command_buf chip)[unat (command_index chip) := b],
                            command_index := command_index chip + 1\<rparr>
            in Some (if command_size chip1 = command_index chip1
                     then execute_command chip1 else chip1))
         else None)
      else Some chip)"

fun process_command_args :: "chip_state \<Rightarrow> 8 word list \<Rightarrow> chip_state option" where
  "process_command_args chip [] = Some chip"
| "process_command_args chip (b # buffer) =
     (case process_command_args_body chip b of
        None \<Rightarrow> None
      | Some chip' \<Rightarrow> process_command_args chip' buffer)"

subsection \<open>Pixel data\<close>

text \<open>
  One round of the loop of \<open>process_data\<close>, in its three parts: the sink coordinates
  \<open>x\<close> and \<open>y\<close> (lines 212 to 220), the write (lines 222 to 224) and the advance of the
  cursor (lines 226 to 244). \<open>x\<close>, \<open>y\<close> and \<open>pix_index\<close> are \<open>int\<close> in C, mixed with
  \<open>uint32_t\<close> operands, and the offset handed to \<open>buffer_write\<close> is \<open>uint32_t\<close>:
  all of it is arithmetic modulo \<open>2 ^ 32\<close>.
\<close>

definition sink_x :: "chip_state \<Rightarrow> 32 word" where
  "sink_x chip =
     (let x = active_column chip
      in if scanning_direction chip AND SCAN_MV \<noteq> 0
         then (if scanning_direction chip AND SCAN_MX \<noteq> 0 then width chip - 1 - x else x)
         else (if scanning_direction chip AND SCAN_MY \<noteq> 0 then width chip - 1 - x else x))"

definition sink_y :: "chip_state \<Rightarrow> 32 word" where
  "sink_y chip =
     (let y = active_row chip
      in if scanning_direction chip AND SCAN_MV \<noteq> 0
         then (if scanning_direction chip AND SCAN_MY \<noteq> 0 then height chip - 1 - y else y)
         else (if scanning_direction chip AND SCAN_MX \<noteq> 0 then height chip - 1 - y else y))"

definition advance_cursor :: "chip_state \<Rightarrow> chip_state" where
  "advance_cursor chip =
     (if scanning_direction chip AND SCAN_MV \<noteq> 0 then
        (let chip1 = chip\<lparr>active_row := active_row chip + 1\<rparr>
         in if active_row chip1 > row_end chip1 then
              (let chip2 = chip1\<lparr>active_row := row_start chip1,
                                 active_column := active_column chip1 + 1\<rparr>
               in if active_column chip2 > column_end chip2
                  then chip2\<lparr>active_column := column_start chip2\<rparr> else chip2)
            else chip1)
      else
        (let chip1 = chip\<lparr>active_column := active_column chip + 1\<rparr>
         in if active_column chip1 > column_end chip1 then
              (let chip2 = chip1\<lparr>active_column := column_start chip1,
                                 active_row := active_row chip1 + 1\<rparr>
               in if active_row chip2 > row_end chip2
                  then chip2\<lparr>active_row := row_start chip2\<rparr> else chip2)
            else chip1))"

definition process_data_body :: "chip_state \<Rightarrow> 16 word \<Rightarrow> chip_state" where
  "process_data_body chip v =
     (let x = sink_x chip;
          y = sink_y chip;
          color = rgb565_to_rgba v;
          pix_index = y * width chip + x;
          chip1 = chip\<lparr>framebuffer := framebuffer chip @ [(pix_index * 4, color)]\<rparr>
      in advance_cursor chip1)"

fun process_data :: "chip_state \<Rightarrow> 16 word list \<Rightarrow> chip_state" where
  "process_data chip [] = chip"
| "process_data chip (v # samples) = process_data (process_data_body chip v) samples"

subsection \<open>The callbacks\<close>

text \<open>
  \<open>chip_spi_done\<close> receives the bytes of one transfer. In data mode with \<open>ram_write\<close>
  set it reads the byte buffer through a \<open>uint16_t\<close> pointer, \<open>count / 2\<close> values: on
  the little-endian target each value is a pair of bytes, low byte first, and a last odd
  byte is not read. Asking the transport for the next buffer changes nothing in the chip.
\<close>

fun buffer16 :: "8 word list \<Rightarrow> 16 word list" where
  "buffer16 (lo # hi # buffer) = (ucast lo OR push_bit 8 (ucast hi)) # buffer16 buffer"
| "buffer16 _ = []"

definition chip_spi_done :: "chip_state \<Rightarrow> 8 word list \<Rightarrow> chip_state option" where
  "chip_spi_done chip buffer =
     (if length buffer = 0 then Some chip
      else if mode chip = MODE_DATA then
        (if ram_write chip then Some (process_data chip (buffer16 buffer))
         else process_command_args chip buffer)
      else Some (process_command chip buffer))"

text \<open>
  \<open>chip_pin_change\<close> talks to the simulator: \<open>pin_read\<close> gives the level of the select
  line, and \<open>spi_stop\<close> ends the transfer in flight by calling \<open>chip_spi_done\<close> with the
  bytes received so far, none of them when nothing was received. Both are given by the
  environment of the call; \<open>spi_start\<close> changes nothing in the chip.
\<close>

record transport =
  cs_level :: "32 word"
  received :: "8 word list"

definition spi_stop :: "chip_state \<Rightarrow> transport \<Rightarrow> chip_state option" where
  "spi_stop chip env = chip_spi_done chip (received env)"

definition chip_pin_change :: "chip_state \<Rightarrow> pin \<Rightarrow> 32 word \<Rightarrow> transport \<Rightarrow> chip_state option" where
  "chip_pin_change chip p v env =
     do {
       chip1 \<leftarrow> (if p = CS then (if v = LOW then Some chip else spi_stop chip env)
                 else Some chip);
       chip2 \<leftarrow> (if p = DC \<and> mode chip1 \<noteq> v then
                   do {
                     c \<leftarrow> (if cs_level env = LOW then spi_stop chip1 env else Some chip1);
                     Some (c\<lparr>mode := v\<rparr>)
                   }
                 else Some chip1);
       (if p = RST \<and> v = LOW then
          do { c \<leftarrow> spi_stop chip2 env; Some (chip_reset c) }
        else Some chip2)
     }"

text \<open>The events that reach the chip, and a run of them.\<close>

datatype event = Deliver "8 word list" | PinChange pin "32 word" transport

fun handle :: "chip_state \<Rightarrow> event \<Rightarrow> chip_state option" where
  "handle chip (Deliver buffer) = chip_spi_done chip buffer"
| "handle chip (PinChange p v env) = chip_pin_change chip p v env"

fun run :: "chip_state \<Rightarrow> event list \<Rightarrow> chip_state option" where
  "run chip [] = Some chip"
| "run chip (e # es) = (case handle chip e of None \<Rightarrow> None | Some chip' \<Rightarrow> run chip' es)"

text \<open>
  The bytes that an event hands to \<open>chip_spi_done\<close>: the chunk of a delivery, and for a
  pin change the bytes in flight when the change stops the transfer (a rising select
  line, a change of the mode line while the select line is low, a falling reset line),
  none otherwise.
\<close>

definition handed_over :: "chip_state \<Rightarrow> event \<Rightarrow> 8 word list" where
  "handed_over chip e =
     (case e of
        Deliver buffer \<Rightarrow> buffer
      | PinChange p v env \<Rightarrow>
          if (p = CS \<and> v \<noteq> LOW) \<or> (p = DC \<and> mode chip \<noteq> v \<and> cs_level env = LOW)
             \<or> (p = RST \<and> v = LOW)
          then received env else [])"

subsection \<open>The words of the specification\<close>

text \<open>
  The definitions of this subsection are not taken from the code. They follow the
  specification, to be compared with what \<open>process_data\<close> does: the sink coordinates
  by the three orientation flags, and the raster order of the addressing window.
\<close>

definition spec_sink_x :: "bool \<Rightarrow> bool \<Rightarrow> bool \<Rightarrow> 32 word \<Rightarrow> 32 word \<Rightarrow> 32 word" where
  "spec_sink_x swap_axes mirror_x mirror_y w col =
     (if swap_axes then (if mirror_x then w - 1 - col else col)
      else (if mirror_y then w - 1 - col else col))"

definition spec_sink_y :: "bool \<Rightarrow> bool \<Rightarrow> bool \<Rightarrow> 32 word \<Rightarrow> 32 word \<Rightarrow> 32 word" where
  "spec_sink_y swap_axes mirror_x mirror_y h row =
     (if swap_axes then (if mirror_y then h - 1 - row else row)
      else (if mirror_x then h - 1 - row else row))"

text \<open>The cursor lies within the window, bounds included.\<close>

definition cursor_in_window :: "chip_state \<Rightarrow> bool" where
  "cursor_in_window chip \<longleftrightarrow>
     column_start chip \<le> active_column chip \<and> active_column chip \<le> column_end chip
     \<and> row_start chip \<le> active_row chip \<and> active_row chip \<le> row_end chip"

text \<open>
  A pending command is kept from one state to a later one: the same command code and
  expected count, a received count that has not gone down, and the arguments received
  before still at the front of the parameter buffer.
\<close>

definition pending_kept :: "chip_state \<Rightarrow> chip_state \<Rightarrow> bool" where
  "pending_kept chip chip' \<longleftrightarrow>
     command_code chip' = command_code chip \<and> command_size chip' = command_size chip
     \<and> command_index chip \<le> command_index chip'
     \<and> take (unat (command_index chip)) (command_buf chip')
         = take (unat (command_index chip)) (command_buf chip)"

definition window_width :: "chip_state \<Rightarrow> nat" where
  "window_width chip = unat (column_end chip) - unat (column_start chip) + 1"

definition window_height :: "chip_state \<Rightarrow> nat" where
  "window_height chip = unat (row_end chip) - unat (row_start chip) + 1"

definition window_area :: "chip_state \<Rightarrow> nat" where
  "window_area chip = window_width chip * window_height chip"

text \<open>
  The \<open>k\<close>-th position of the window in scan order, as (column, row), counted from 0 at
  the start of the window: the row runs fastest when swap-axes is set, the column when
  it is clear. \<open>raster_index\<close> is the place of the cursor in that order.
\<close>

definition raster_position :: "chip_state \<Rightarrow> nat \<Rightarrow> nat \<times> nat" where
  "raster_position chip k =
     (if bit (scanning_direction chip) 5
      then (unat (column_start chip) + k div window_height chip,
            unat (row_start chip) + k mod window_height chip)
      else (unat (column_start chip) + k mod window_width chip,
            unat (row_start chip) + k div window_width chip))"

definition raster_index :: "chip_state \<Rightarrow> nat" where
  "raster_index chip =
     (if bit (scanning_direction chip) 5
      then (unat (active_column chip) - unat (column_start chip)) * window_height chip
           + (unat (active_row chip) - unat (row_start chip))
      else (unat (active_row chip) - unat (row_start chip)) * window_width chip
           + (unat (active_column chip) - unat (column_start chip)))"

subsection \<open>A concrete chip\<close>

text \<open>
  A chip on a surface of 128 by 160 pixels with every other field zero, for the concrete
  inputs of the examples below.
\<close>

definition zero_chip :: chip_state where
  "zero_chip =
     \<lparr>width = 128, height = 160, mode = MODE_COMMAND,
      command_code = 0, command_size = 0, command_index = 0,
      command_buf = [0, 0, 0, 0, 0, 0, 0, 0, 0, 0, 0, 0, 0, 0, 0, 0], ram_write = False,
      active_column = 0, column_start = 0, column_end = 0,
      active_row = 0, row_start = 0, row_end = 0,
      scanning_direction = 0, framebuffer = [], stdout = []\<rparr>"

text \<open>
  The same chip in the middle of a Column-Address-Set: two of the four arguments are
  in the parameter buffer.
\<close>

definition pending_chip :: chip_state where
  "pending_chip =
     zero_chip\<lparr>command_code := CMD_CASET, command_size := 4, command_index := 2,
                command_buf := [0, 5, 0, 0, 0, 0, 0, 0, 0, 0, 0, 0, 0, 0, 0, 0]\<rparr>"

text \<open>
  The same chip with the window of columns 5 to 6 and rows 10 to 12, the cursor at
  column 6 of row 11, in the middle of the window.
\<close>

definition window_chip :: chip_state where
  "window_chip =
     zero_chip\<lparr>column_start := 5, column_end := 6, row_start := 10, row_end := 12,
                active_column := 6, active_row := 11\<rparr>"


section \<open>Properties\<close>

subsection \<open>Colour conversion\<close>

lemma mask_0x1f: "(0x1f :: 16 word) = mask 5"
  by (simp add: mask_eq_exp_minus_1)

lemma mask_0x3f: "(0x3f :: 16 word) = mask 6"
  by (simp add: mask_eq_exp_minus_1)

lemma mask_0x7e0: "(0x7e0 :: 16 word) = push_bit 5 (mask 6)"
  by (simp add: mask_eq_exp_minus_1)

lemma mask_0xf800: "(0xf800 :: 16 word) = push_bit 11 (mask 5)"
  by (simp add: mask_eq_exp_minus_1)

lemma mask_0xff: "(0xff :: 32 word) = mask 8"
  by (simp add: mask_eq_exp_minus_1)

lemma mask_0xff000000: "(0xff000000 :: 32 word) = push_bit 24 (mask 8)"
  by (simp add: mask_eq_exp_minus_1)

text \<open>Every bit of the result: which bit of the sample it is, or that it is set.\<close>

lemma rgb565_bit:
  "bit (rgb565_to_rgba v) n \<longleftrightarrow>
     (24 \<le> n \<and> n < 32) \<or> (19 \<le> n \<and> n < 24 \<and> bit v (n - 19))
     \<or> (10 \<le> n \<and> n < 16 \<and> bit v (n - 5)) \<or> (3 \<le> n \<and> n < 8 \<and> bit v (n + 8))"
  unfolding rgb565_to_rgba_def mask_0x1f mask_0x7e0 mask_0xf800 mask_0xff000000
  apply (simp only: bit_simps o_apply possible_bit_word len_bit0 len_num1 mult_1_right)
  apply simp
  apply (cases "n < 32"; simp)
  apply (cases "n < 24"; simp)
  apply (cases "n < 16"; simp)
  apply (cases "n < 8"; simp)
     apply (auto simp: add.commute)
  done

lemma rgb565_alpha: "drop_bit 24 (rgb565_to_rgba v) = 0xff"
  unfolding mask_0xff
proof (rule bit_word_eqI)
  fix n assume "n < LENGTH(32)"
  then show "bit (drop_bit 24 (rgb565_to_rgba v)) n = bit (mask 8 :: 32 word) n"
    by (simp only: bit_simps o_apply possible_bit_word rgb565_bit len_bit0 len_num1 mult_1_right)
      auto
qed

lemma rgb565_bits_16_23:
  "drop_bit 16 (rgb565_to_rgba v) AND 0xff = push_bit 3 (ucast (v AND 0x1f))"
  unfolding mask_0xff mask_0x1f
proof (rule bit_word_eqI)
  fix n assume "n < LENGTH(32)"
  show "bit (drop_bit 16 (rgb565_to_rgba v) AND mask 8) n
        = bit (push_bit 3 (ucast (v AND mask 5)) :: 32 word) n"
    apply (simp only: bit_simps o_apply possible_bit_word rgb565_bit len_bit0 len_num1 mult_1_right)
    apply (cases "n < 8"; simp)
    apply (auto simp: add.commute)
    done
qed

lemma rgb565_bits_8_15:
  "drop_bit 8 (rgb565_to_rgba v) AND 0xff = push_bit 2 (ucast (drop_bit 5 v AND 0x3f))"
  unfolding mask_0xff mask_0x3f
proof (rule bit_word_eqI)
  fix n assume "n < LENGTH(32)"
  show "bit (drop_bit 8 (rgb565_to_rgba v) AND mask 8) n
        = bit (push_bit 2 (ucast (drop_bit 5 v AND mask 6)) :: 32 word) n"
    apply (simp only: bit_simps o_apply possible_bit_word rgb565_bit len_bit0 len_num1 mult_1_right)
    apply (cases "n < 8"; simp)
    apply (auto simp: add.commute)
    done
qed

lemma rgb565_bits_0_7:
  "rgb565_to_rgba v AND 0xff = push_bit 3 (ucast (drop_bit 11 v))"
  unfolding mask_0xff
proof (rule bit_word_eqI)
  fix n assume "n < LENGTH(32)"
  have hi: "bit v (n + 8) \<Longrightarrow> n < 8"
    using bit_imp_le_length [of v "n + 8"] by simp
  show "bit (rgb565_to_rgba v AND mask 8) n
        = bit (push_bit 3 (ucast (drop_bit 11 v)) :: 32 word) n"
    using hi
    apply (simp only: bit_simps o_apply possible_bit_word rgb565_bit len_bit0 len_num1 mult_1_right)
    apply (cases "n < 8"; simp)
     apply (auto simp: add.commute)
    done
qed

text \<open>
  C1, as the code has it. The result has \<open>0xff\<close> in bits 24 to 31. The bottom 5 bits of
  the sample (blue) are shifted to the top of bits 16 to 23, the middle 6 bits (green) to
  the top of bits 8 to 15, and the top 5 bits (red) to the top of bits 0 to 7; the bits
  below each field are zero. So red is the lowest byte of the result and blue the third,
  the reverse of the layout in the specification. The samples \<open>0x0000\<close>, \<open>0xf800\<close>, \<open>0x07e0\<close> and
  \<open>0x001f\<close> give no colour, red only, green only and blue only in that layout.
\<close>

theorem rgb565_to_rgba_channels:
  "drop_bit 24 (rgb565_to_rgba v) = 0xff
   \<and> drop_bit 16 (rgb565_to_rgba v) AND 0xff = push_bit 3 (ucast (v AND 0x1f))
   \<and> drop_bit 8 (rgb565_to_rgba v) AND 0xff = push_bit 2 (ucast (drop_bit 5 v AND 0x3f))
   \<and> rgb565_to_rgba v AND 0xff = push_bit 3 (ucast (drop_bit 11 v))
   \<and> rgb565_to_rgba 0x0000 = 0xff000000
   \<and> rgb565_to_rgba 0xf800 = 0xff0000f8
   \<and> rgb565_to_rgba 0x07e0 = 0xff00fc00
   \<and> rgb565_to_rgba 0x001f = 0xfff80000"
proof -
  have "rgb565_to_rgba 0x0000 = 0xff000000" "rgb565_to_rgba 0xf800 = 0xff0000f8"
    "rgb565_to_rgba 0x07e0 = 0xff00fc00" "rgb565_to_rgba 0x001f = 0xfff80000"
    by (simp_all add: rgb565_to_rgba_def)
  then show ?thesis
    using rgb565_alpha [of v] rgb565_bits_16_23 [of v] rgb565_bits_8_15 [of v]
      rgb565_bits_0_7 [of v]
    by simp
qed

text \<open>
  C1 as stated fails at the sample \<open>0xf800\<close>, whose top 5 bits are all set: bits 16 to
  23 of the result are zero, and the red field is in bits 0 to 7.
\<close>

theorem rgb565_red_counterexample:
  "drop_bit 16 (rgb565_to_rgba 0xf800) AND 0xff
     \<noteq> (push_bit 3 (ucast (drop_bit 11 (0xf800 :: 16 word))) :: 32 word)
   \<and> drop_bit 16 (rgb565_to_rgba 0xf800) AND 0xff = 0
   \<and> rgb565_to_rgba 0xf800 AND 0xff = 0xf8"
  by (simp add: rgb565_to_rgba_def)

subsection \<open>Reset\<close>

lemma spi_stop_nothing: "received env = [] \<Longrightarrow> spi_stop chip env = Some chip"
  by (simp add: spi_stop_def chip_spi_done_def)

text \<open>
  C2, as the code has it. After \<open>chip_reset\<close> the ram-write flag is false, the cursor is
  at column 0 and row 0, the column window is 0 to 127 and the row window is 0 to 35,
  whatever the surface is: the column window ends at the width minus one exactly when the
  width is 128. The dimensions, the orientation and the mode are kept. An active reset
  line with no byte in flight is \<open>chip_reset\<close>.
\<close>

theorem chip_reset_defaults:
  "\<not> ram_write (chip_reset chip)
   \<and> active_column (chip_reset chip) = 0 \<and> active_row (chip_reset chip) = 0
   \<and> column_start (chip_reset chip) = 0 \<and> column_end (chip_reset chip) = 127
   \<and> row_start (chip_reset chip) = 0 \<and> row_end (chip_reset chip) = 35
   \<and> (column_end (chip_reset chip) = width (chip_reset chip) - 1 \<longleftrightarrow> width chip = 128)
   \<and> width (chip_reset chip) = width chip \<and> height (chip_reset chip) = height chip
   \<and> scanning_direction (chip_reset chip) = scanning_direction chip
   \<and> mode (chip_reset chip) = mode chip
   \<and> chip_pin_change chip RST LOW \<lparr>cs_level = l, received = []\<rparr> = Some (chip_reset chip)"
  by (auto simp: chip_reset_def chip_pin_change_def spi_stop_nothing)

text \<open>
  C2 as stated fails on a surface 240 pixels wide: the column window ends at 127, not
  at 239.
\<close>

theorem chip_reset_width_counterexample:
  "column_end (chip_reset (zero_chip\<lparr>width := 240, height := 320\<rparr>))
     \<noteq> width (chip_reset (zero_chip\<lparr>width := 240, height := 320\<rparr>)) - 1
   \<and> column_end (chip_reset (zero_chip\<lparr>width := 240, height := 320\<rparr>)) = 127"
  by (simp add: chip_reset_def zero_chip_def)

subsection \<open>Address-set commands\<close>

lemma swap_bit: "(w AND SCAN_MV \<noteq> 0) = bit (w :: 32 word) 5"
  using bit_iff_and_push_bit_not_eq_0 [of w 5] by simp

lemma mx_bit: "(w AND SCAN_MX \<noteq> 0) = bit (w :: 32 word) 6"
  using bit_iff_and_push_bit_not_eq_0 [of w 6] by simp

lemma my_bit: "(w AND SCAN_MY \<noteq> 0) = bit (w :: 32 word) 7"
  using bit_iff_and_push_bit_not_eq_0 [of w 7] by simp

lemma unat_ucast_8_16: "unat (ucast (a :: 8 word) :: 16 word) = unat a"
  using unsigned_less [of a, where ?'a = nat]
  by (simp add: unsigned_ucast_eq take_bit_nat_eq_self)

lemma be16_unat:
  "unat (push_bit 8 (ucast (a :: 8 word)) OR ucast (b :: 8 word) :: 16 word) = 256 * unat a + unat b"
proof -
  have "(push_bit 8 (ucast a) :: 16 word) + ucast b = push_bit 8 (ucast a) OR ucast b"
    by (rule disjunctive_add) (auto simp: bit_simps dest: bit_imp_le_length)
  moreover have "unat ((push_bit 8 (ucast a) :: 16 word) + ucast b) = 256 * unat a + unat b"
    using unsigned_less [of a, where ?'a = nat] unsigned_less [of b, where ?'a = nat]
    by (simp add: unat_word_ariths push_bit_eq_mult unat_ucast_8_16)
  ultimately show ?thesis by simp
qed

lemma be16_ucast:
  "(ucast (push_bit 8 (ucast (a :: 8 word)) OR ucast (b :: 8 word) :: 16 word) :: 32 word)
     = word_of_nat (256 * unat a + unat b)"
proof -
  have "(ucast (push_bit 8 (ucast a) OR ucast b :: 16 word) :: 32 word)
        = word_of_nat (unat (push_bit 8 (ucast a) OR ucast b :: 16 word))"
    by simp
  then show ?thesis by (simp only: be16_unat)
qed

lemma be16_bound: "256 * unat (a :: 8 word) + unat (b :: 8 word) < 65536"
  using unsigned_less [of a, where ?'a = nat] unsigned_less [of b, where ?'a = nat] by simp

lemma execute_address_set:
  assumes "command_code chip = CMD_CASET \<or> command_code chip = CMD_RASET"
  shows "execute_command chip =
     (if (if scanning_direction chip AND SCAN_MV \<noteq> 0
          then command_code chip \<noteq> CMD_RASET else command_code chip = CMD_RASET)
      then chip\<lparr>active_row :=
                  ucast (push_bit 8 (ucast (command_buf chip ! 0)) OR ucast (command_buf chip ! 1) :: 16 word),
                row_start :=
                  ucast (push_bit 8 (ucast (command_buf chip ! 0)) OR ucast (command_buf chip ! 1) :: 16 word),
                row_end :=
                  ucast (push_bit 8 (ucast (command_buf chip ! 2)) OR ucast (command_buf chip ! 3) :: 16 word)\<rparr>
      else chip\<lparr>active_column :=
                  ucast (push_bit 8 (ucast (command_buf chip ! 0)) OR ucast (command_buf chip ! 1) :: 16 word),
                column_start :=
                  ucast (push_bit 8 (ucast (command_buf chip ! 0)) OR ucast (command_buf chip ! 1) :: 16 word),
                column_end :=
                  ucast (push_bit 8 (ucast (command_buf chip ! 2)) OR ucast (command_buf chip ! 3) :: 16 word)\<rparr>)"
proof -
  from assms have "command_code chip \<noteq> CMD_RAMWR" "command_code chip \<noteq> CMD_MADCTL"
    by auto
  with assms show ?thesis
    unfolding execute_command_def Let_def by (simp only: if_False if_True)
qed

text \<open>
  C5. With the command code Column-Address-Set or Row-Address-Set and the four argument
  bytes \<open>s1 s0 e1 e0\<close> at the front of the parameter buffer, \<open>execute_command\<close> reads
  them as two big-endian 16-bit values, start and end, and updates exactly one axis: the
  row axis when the command is Row-Address-Set and swap-axes (bit 5 of the orientation
  register) is clear, or when it is Column-Address-Set and swap-axes is set; the column
  axis otherwise. On that axis the cursor becomes start and the window start to end;
  every other field keeps its value. The flag is read when the command executes, so a
  change of the flag between two commands changes the axis of the second.
\<close>

theorem address_set_axis:
  assumes code: "command_code chip = CMD_CASET \<or> command_code chip = CMD_RASET"
    and args: "command_buf chip = s1 # s0 # e1 # e0 # rest"
  shows "let first = word_of_nat (256 * unat s1 + unat s0);
             last = word_of_nat (256 * unat e1 + unat e0);
             swap_axes = bit (scanning_direction chip) 5
         in execute_command chip =
              (if (command_code chip = CMD_RASET) \<noteq> swap_axes
               then chip\<lparr>active_row := first, row_start := first, row_end := last\<rparr>
               else chip\<lparr>active_column := first, column_start := first, column_end := last\<rparr>)"
proof -
  have b: "command_buf chip ! 0 = s1" "command_buf chip ! 1 = s0"
    "command_buf chip ! 2 = e1" "command_buf chip ! 3 = e0"
    by (simp_all add: args)
  show ?thesis
    unfolding execute_address_set [OF code] b be16_ucast swap_bit Let_def
    by (cases "command_code chip = CMD_RASET"; cases "bit (scanning_direction chip) 5"; simp)
qed

text \<open>
  Swap-axes set, Row-Address-Set with start 5 and end 10: the column window is set.
\<close>

theorem address_set_axis_witness:
  "execute_command
     (zero_chip\<lparr>command_code := CMD_RASET, command_buf := [0, 5, 0, 10, 0, 0, 0, 0],
                scanning_direction := SCAN_MV\<rparr>)
   = zero_chip\<lparr>command_code := CMD_RASET, command_buf := [0, 5, 0, 10, 0, 0, 0, 0],
               scanning_direction := SCAN_MV,
               active_column := 5, column_start := 5, column_end := 10\<rparr>"
  using address_set_axis [of "zero_chip\<lparr>command_code := CMD_RASET,
      command_buf := [0, 5, 0, 10, 0, 0, 0, 0], scanning_direction := SCAN_MV\<rparr>"
      0 5 0 10 "[0, 0, 0, 0]"]
  by (simp add: zero_chip_def Let_def)

subsection \<open>Command bytes\<close>

lemma command_size_table:
  "(word_of_int (command_args_size b) :: 8 word)
     = (if b = CMD_MADCTL then 1 else if b = CMD_CASET \<or> b = CMD_RASET then 4 else 0)"
  by (simp add: command_args_size_def)

lemma execute_command_keeps:
  "command_code (execute_command chip) = command_code chip"
  "command_size (execute_command chip) = command_size chip"
  "command_index (execute_command chip) = command_index chip"
  "command_buf (execute_command chip) = command_buf chip"
  "mode (execute_command chip) = mode chip"
  "width (execute_command chip) = width chip"
  "height (execute_command chip) = height chip"
  by (simp_all add: execute_command_def Let_def)

lemma process_command_loop_append:
  "process_command_loop chip (xs @ ys) = process_command_loop (process_command_loop chip xs) ys"
  by (induction xs arbitrary: chip) simp_all

lemma process_command_snoc:
  "process_command chip (buffer @ [b]) = process_command_body (process_command chip buffer) b"
  by (simp add: process_command_def process_command_loop_append)

lemma process_command_body_fresh:
  "process_command_body (chip\<lparr>command_code := c, command_size := s, command_index := i\<rparr>) b
     = process_command_body chip b"
  by (simp add: process_command_body_def Let_def)

lemma process_command_loop_fresh:
  "buffer \<noteq> [] \<Longrightarrow>
   process_command_loop (chip\<lparr>command_code := c, command_size := s, command_index := i\<rparr>) buffer
     = process_command_loop chip buffer"
  by (cases buffer) (simp_all add: process_command_body_fresh)

lemma process_command_fresh:
  assumes "buffer \<noteq> []"
  shows "process_command (chip\<lparr>command_code := c, command_size := s, command_index := i\<rparr>) buffer
     = process_command chip buffer"
proof -
  have eq: "(chip\<lparr>command_code := c, command_size := s, command_index := i\<rparr>)\<lparr>ram_write := False\<rparr>
        = (chip\<lparr>ram_write := False\<rparr>)\<lparr>command_code := c, command_size := s, command_index := i\<rparr>"
    by simp
  show ?thesis
    unfolding process_command_def eq by (rule process_command_loop_fresh [OF assms])
qed

lemma execute_command_ram_write:
  "ram_write (execute_command chip) \<longleftrightarrow> ram_write chip \<or> command_code chip = CMD_RAMWR"
  by (simp add: execute_command_def Let_def)

lemma process_command_body_ram_write:
  "ram_write (process_command_body chip b) \<longleftrightarrow> ram_write chip \<or> b = CMD_RAMWR"
  by (auto simp: process_command_body_def Let_def command_size_table execute_command_ram_write)

lemma process_command_loop_ram_write:
  "ram_write (process_command_loop chip buffer) \<longleftrightarrow> ram_write chip \<or> CMD_RAMWR \<in> set buffer"
  by (induction buffer arbitrary: chip) (auto simp: process_command_body_ram_write)

lemma process_command_ram_write:
  "ram_write (process_command chip buffer) \<longleftrightarrow> CMD_RAMWR \<in> set buffer"
  by (simp add: process_command_def process_command_loop_ram_write)

lemma process_command_body_eq:
  "process_command_body chip b =
     (let n = (if b = CMD_MADCTL then 1 else if b = CMD_CASET \<or> b = CMD_RASET then 4 else 0);
          chip' = chip\<lparr>command_code := b, command_size := n, command_index := 0\<rparr>
      in if n = 0 then execute_command chip' else chip')"
  by (simp add: process_command_body_def Let_def command_size_table)


lemma chip_spi_done_command:
  "buffer \<noteq> [] \<Longrightarrow> mode chip \<noteq> MODE_DATA \<Longrightarrow>
   chip_spi_done chip buffer = Some (process_command chip buffer)"
  by (simp add: chip_spi_done_def)

text \<open>
  C8. \<open>process_command\<close> is what a chunk delivered in command mode runs. On the empty
  chunk it only clears the ram-write flag. Every further byte \<open>b\<close> becomes the command
  code, with the expected count 1 for Memory-Access-Control, 4 for Column-Address-Set
  and Row-Address-Set and 0 for any other code, and with the received count 0; a command
  whose count is 0 is executed at once, any other one is not executed. After the chunk
  the ram-write flag is set exactly when the chunk holds a Memory-Write byte, whatever the
  flag was before. The command code, the expected and the received count the chip
  had before a non-empty chunk have no effect on the result: a pending command is
  dropped.
\<close>

theorem command_mode_chunk:
  "process_command chip [] = chip\<lparr>ram_write := False\<rparr>
   \<and> process_command chip (buffer @ [b]) =
       (let n = (if b = CMD_MADCTL then 1 else if b = CMD_CASET \<or> b = CMD_RASET then 4 else 0);
            chip' = (process_command chip buffer)\<lparr>command_code := b, command_size := n,
                                                  command_index := 0\<rparr>
        in if n = 0 then execute_command chip' else chip')
   \<and> (ram_write (process_command chip buffer) \<longleftrightarrow> CMD_RAMWR \<in> set buffer)
   \<and> (buffer \<noteq> [] \<longrightarrow>
        process_command (chip\<lparr>command_code := c, command_size := s, command_index := i\<rparr>) buffer
          = process_command chip buffer)
   \<and> (buffer \<noteq> [] \<and> mode chip \<noteq> MODE_DATA \<longrightarrow>
        chip_spi_done chip buffer = Some (process_command chip buffer))"
proof -
  have "process_command chip [] = chip\<lparr>ram_write := False\<rparr>"
    by (simp add: process_command_def)
  moreover have "process_command chip (buffer @ [b]) =
       (let n = (if b = CMD_MADCTL then 1 else if b = CMD_CASET \<or> b = CMD_RASET then 4 else 0);
            chip' = (process_command chip buffer)\<lparr>command_code := b, command_size := n,
                                                  command_index := 0\<rparr>
        in if n = 0 then execute_command chip' else chip')"
    by (simp only: process_command_snoc process_command_body_eq)
  ultimately show ?thesis
    using process_command_ram_write [of chip buffer]
      process_command_fresh [where buffer = buffer and chip = chip and c = c and s = s and i = i]
      chip_spi_done_command [where buffer = buffer and chip = chip]
    by blast
qed

text \<open>
  A chip with two of the four arguments of a Row-Address-Set received gets the chunk
  Column-Address-Set, Memory-Write in command mode.
\<close>

theorem command_mode_chunk_witness:
  "[CMD_CASET, CMD_RAMWR] \<noteq> []
   \<and> mode (zero_chip\<lparr>command_code := CMD_RASET, command_size := 4, command_index := 2\<rparr>) \<noteq> MODE_DATA
   \<and> chip_spi_done (zero_chip\<lparr>command_code := CMD_RASET, command_size := 4, command_index := 2\<rparr>)
        [CMD_CASET, CMD_RAMWR]
      = Some (process_command zero_chip [CMD_CASET, CMD_RAMWR])
   \<and> process_command zero_chip [CMD_CASET, CMD_RAMWR]
      = zero_chip\<lparr>command_code := CMD_RAMWR, ram_write := True\<rparr>"
  using command_mode_chunk [where chip = "zero_chip\<lparr>command_code := CMD_RASET,
      command_size := 4, command_index := 2\<rparr>" and buffer = "[CMD_CASET, CMD_RAMWR]"]
    command_mode_chunk [where chip = zero_chip and buffer = "[CMD_CASET, CMD_RAMWR]"
      and c = CMD_RASET and s = 4 and i = 2]
  by (simp add: zero_chip_def process_command_def process_command_body_def Let_def
      command_args_size_def execute_command_def)

subsection \<open>Stop, restart and reset during a command\<close>

lemma chip_reset_keeps_command:
  "command_code (chip_reset chip) = command_code chip"
  "command_size (chip_reset chip) = command_size chip"
  "command_index (chip_reset chip) = command_index chip"
  "command_buf (chip_reset chip) = command_buf chip"
  by (simp_all add: chip_reset_def)

lemma select_stop_restart:
  "run chip [PinChange CS HIGH \<lparr>cs_level = HIGH, received = []\<rparr>,
             PinChange CS LOW \<lparr>cs_level = LOW, received = []\<rparr>] = Some chip"
  by (simp add: chip_pin_change_def spi_stop_nothing)

lemma command_byte_clears:
  assumes "mode chip \<noteq> MODE_DATA"
  shows "\<exists>chip'. chip_spi_done chip [b] = Some chip'
     \<and> command_code chip' = b \<and> command_index chip' = 0
     \<and> command_size chip' = (if b = CMD_MADCTL then 1 else if b = CMD_CASET \<or> b = CMD_RASET then 4 else 0)
     \<and> stdout chip' = stdout chip @
           (if b = CMD_RAMWR \<or> b = CMD_MADCTL \<or> b = CMD_CASET \<or> b = CMD_RASET then [] else [b])"
  using assms
  by (simp add: chip_spi_done_def process_command_def process_command_body_eq Let_def
      execute_command_def)

subsection \<open>Arguments across chunks\<close>

lemma process_command_args_append:
  "process_command_args chip (xs @ ys)
     = (case process_command_args chip xs of
          None \<Rightarrow> None
        | Some chip' \<Rightarrow> process_command_args chip' ys)"
  by (induction xs arbitrary: chip) (simp_all split: option.splits)

lemma execute_command_keeps_ram_write:
  "command_code chip \<noteq> CMD_RAMWR \<Longrightarrow> ram_write (execute_command chip) = ram_write chip"
  by (simp add: execute_command_def Let_def)

lemma process_command_args_body_keeps:
  assumes "process_command_args_body chip b = Some chip'"
  shows "mode chip' = mode chip" and "command_code chip' = command_code chip"
    and "command_size chip' = command_size chip"
    and "command_code chip \<noteq> CMD_RAMWR \<Longrightarrow> ram_write chip' = ram_write chip"
  using assms
  by (auto simp: process_command_args_body_def Let_def execute_command_keeps
      execute_command_keeps_ram_write split: if_splits)

lemma process_command_args_keeps:
  assumes "process_command_args chip buffer = Some chip'"
  shows "mode chip' = mode chip \<and> command_code chip' = command_code chip
     \<and> command_size chip' = command_size chip
     \<and> (command_code chip \<noteq> CMD_RAMWR \<longrightarrow> ram_write chip' = ram_write chip)"
  using assms
proof (induction buffer arbitrary: chip)
  case Nil
  then show ?case by simp
next
  case (Cons b buffer)
  then obtain c where c: "process_command_args_body chip b = Some c"
    and rest: "process_command_args c buffer = Some chip'"
    by (auto split: option.splits)
  from Cons.IH [OF rest] process_command_args_body_keeps [OF c]
  show ?case by simp
qed

text \<open>In data mode with ram-write clear, a delivered chunk is argument bytes, empty or not.\<close>

lemma chip_spi_done_args:
  "mode chip = MODE_DATA \<Longrightarrow> \<not> ram_write chip \<Longrightarrow>
   chip_spi_done chip buffer = process_command_args chip buffer"
  by (cases buffer) (simp_all add: chip_spi_done_def)

lemma deliver_args_split:
  assumes m: "mode chip = MODE_DATA" and r: "\<not> ram_write chip"
    and c: "command_code chip \<noteq> CMD_RAMWR"
  shows "run chip [Deliver xs, Deliver ys] = run chip [Deliver (xs @ ys)]"
proof (cases "process_command_args chip xs")
  case None
  then show ?thesis
    using m r by (simp add: chip_spi_done_args process_command_args_append)
next
  case (Some chip')
  from process_command_args_keeps [OF Some] m r c
  have "mode chip' = MODE_DATA" "\<not> ram_write chip'" by simp_all
  then show ?thesis
    using m r Some
    by (simp add: chip_spi_done_args process_command_args_append split: option.splits)
qed


lemma run_Cons_Some: "handle chip e = Some chip' \<Longrightarrow> run chip (e # es) = run chip' es"
  by simp

lemma opcode_then_data_mode:
  assumes op: "op = CMD_CASET \<or> op = CMD_RASET" and cm: "mode chip \<noteq> MODE_DATA"
  shows "run chip (Deliver [op] # PinChange DC HIGH \<lparr>cs_level = l, received = []\<rparr> # es)
     = run (chip\<lparr>ram_write := False, command_code := op, command_size := 4,
                 command_index := 0, mode := MODE_DATA\<rparr>) es"
proof -
  let ?c1 = "chip\<lparr>ram_write := False, command_code := op, command_size := 4, command_index := 0\<rparr>"
  have 1: "handle chip (Deliver [op]) = Some ?c1"
    using op cm
    by (auto simp: chip_spi_done_def process_command_def process_command_body_eq Let_def)
  have 2: "handle ?c1 (PinChange DC HIGH \<lparr>cs_level = l, received = []\<rparr>)
           = Some (?c1\<lparr>mode := MODE_DATA\<rparr>)"
    using cm by (simp add: chip_pin_change_def spi_stop_nothing)
  show ?thesis
    by (simp only: run_Cons_Some [OF 1] run_Cons_Some [OF 2])
qed

lemma four_arguments:
  assumes "command_size chip = 4" and "command_index chip = 0"
  shows "process_command_args chip [a0, a1, a2, a3]
     = Some (execute_command
         (chip\<lparr>command_buf := (command_buf chip)[0 := a0, 1 := a1, 2 := a2, 3 := a3],
               command_index := 4\<rparr>))"
  using assms by (simp add: process_command_args_body_def Let_def)

lemma one_transfer:
  assumes op: "op = CMD_CASET \<or> op = CMD_RASET" and cm: "mode chip \<noteq> MODE_DATA"
  shows "run chip (PinChange CS LOW \<lparr>cs_level = LOW, received = []\<rparr>
                   # PinChange DC HIGH \<lparr>cs_level = LOW, received = [op]\<rparr> # es)
     = run (chip\<lparr>ram_write := False, command_code := op, command_size := 4,
                 command_index := 0, mode := MODE_DATA\<rparr>) es"
proof -
  let ?c1 = "chip\<lparr>ram_write := False, command_code := op, command_size := 4, command_index := 0\<rparr>"
  have 1: "handle chip (PinChange CS LOW \<lparr>cs_level = LOW, received = []\<rparr>) = Some chip"
    by (simp add: chip_pin_change_def)
  have flush: "spi_stop chip \<lparr>cs_level = LOW, received = [op]\<rparr> = Some ?c1"
    using op cm
    by (auto simp: spi_stop_def chip_spi_done_def process_command_def process_command_body_eq
        Let_def)
  have 2: "handle chip (PinChange DC HIGH \<lparr>cs_level = LOW, received = [op]\<rparr>)
           = Some (?c1\<lparr>mode := MODE_DATA\<rparr>)"
    using cm by (simp add: chip_pin_change_def flush)
  show ?thesis
    by (simp only: run_Cons_Some [OF 1] run_Cons_Some [OF 2])
qed

text \<open>
  C4, as the code has it. A chunk is processed under one mode, so the opcode (command
  mode) and its arguments (data mode) are never one chunk. In command mode, deliver the
  opcode of Column-Address-Set or Row-Address-Set as one chunk; let the mode line go
  high with no byte in flight; then deliver the four argument bytes in data mode. The
  final state, all of it, is the state in which the command was executed with the four
  bytes at the front of the parameter buffer. It is the same when the four bytes come
  split at any place into two chunks, and the same when the five bytes come in one
  transfer of the select line in which the mode line rises after the opcode, since the
  change of mode hands the opcode over before the mode is switched. The five bytes
  handed over as one chunk need not give that state: after a reset, Column-Address-Set
  with start 5 and end 10 as one chunk, in command mode or in data mode, leaves a column
  window other than the one the two chunks set.
\<close>

theorem address_set_split_chunks:
  assumes op: "op = CMD_CASET \<or> op = CMD_RASET"
    and cm: "mode chip \<noteq> MODE_DATA"
    and args: "xs @ ys = [a0, a1, a2, a3]"
  shows "run chip [Deliver [op], PinChange DC HIGH \<lparr>cs_level = l, received = []\<rparr>,
                   Deliver (xs @ ys)]
         = Some (execute_command
             (chip\<lparr>ram_write := False, command_code := op, command_size := 4,
                   mode := MODE_DATA,
                   command_buf := (command_buf chip)[0 := a0, 1 := a1, 2 := a2, 3 := a3],
                   command_index := 4\<rparr>))
     \<and> run chip [Deliver [op], PinChange DC HIGH \<lparr>cs_level = l, received = []\<rparr>,
                 Deliver xs, Deliver ys]
         = run chip [Deliver [op], PinChange DC HIGH \<lparr>cs_level = l, received = []\<rparr>,
                     Deliver (xs @ ys)]
     \<and> run chip [PinChange CS LOW \<lparr>cs_level = LOW, received = []\<rparr>,
                 PinChange DC HIGH \<lparr>cs_level = LOW, received = [op]\<rparr>,
                 PinChange CS HIGH \<lparr>cs_level = HIGH, received = xs @ ys\<rparr>]
         = run chip [Deliver [op], PinChange DC HIGH \<lparr>cs_level = l, received = []\<rparr>,
                     Deliver (xs @ ys)]
     \<and> map_option (\<lambda>c. (column_start c, column_end c, active_column c))
           (run (chip_reset zero_chip) [Deliver [CMD_CASET, 0, 5, 0, 10]])
         \<noteq> map_option (\<lambda>c. (column_start c, column_end c, active_column c))
             (run (chip_reset zero_chip)
                [Deliver [CMD_CASET], PinChange DC HIGH \<lparr>cs_level = LOW, received = []\<rparr>,
                 Deliver [0, 5, 0, 10]])
     \<and> map_option (\<lambda>c. (column_start c, column_end c, active_column c))
           (run (chip_reset zero_chip)
              [PinChange DC HIGH \<lparr>cs_level = LOW, received = []\<rparr>,
               Deliver [CMD_CASET, 0, 5, 0, 10]])
         \<noteq> map_option (\<lambda>c. (column_start c, column_end c, active_column c))
             (run (chip_reset zero_chip)
                [Deliver [CMD_CASET], PinChange DC HIGH \<lparr>cs_level = LOW, received = []\<rparr>,
                 Deliver [0, 5, 0, 10]])"
proof -
  let ?c2 = "chip\<lparr>ram_write := False, command_code := op, command_size := 4,
                  command_index := 0, mode := MODE_DATA\<rparr>"
  have split: "run ?c2 [Deliver xs, Deliver ys] = run ?c2 [Deliver (xs @ ys)]"
    by (rule deliver_args_split) (use op in auto)
  have whole: "run ?c2 [Deliver (xs @ ys)]
      = Some (execute_command
          (?c2\<lparr>command_buf := (command_buf ?c2)[0 := a0, 1 := a1, 2 := a2, 3 := a3],
                command_index := 4\<rparr>))"
    using four_arguments [of ?c2 a0 a1 a2 a3]
    by (simp add: args chip_spi_done_args)
  have stop: "run ?c2 [PinChange CS HIGH \<lparr>cs_level = HIGH, received = xs @ ys\<rparr>]
      = run ?c2 [Deliver (xs @ ys)]"
    by (simp add: chip_pin_change_def spi_stop_def)
  have one_chunk: "map_option (\<lambda>c. (column_start c, column_end c, active_column c))
           (run (chip_reset zero_chip) [Deliver [CMD_CASET, 0, 5, 0, 10]])
         \<noteq> map_option (\<lambda>c. (column_start c, column_end c, active_column c))
             (run (chip_reset zero_chip)
                [Deliver [CMD_CASET], PinChange DC HIGH \<lparr>cs_level = LOW, received = []\<rparr>,
                 Deliver [0, 5, 0, 10]])"
    "map_option (\<lambda>c. (column_start c, column_end c, active_column c))
           (run (chip_reset zero_chip)
              [PinChange DC HIGH \<lparr>cs_level = LOW, received = []\<rparr>,
               Deliver [CMD_CASET, 0, 5, 0, 10]])
         \<noteq> map_option (\<lambda>c. (column_start c, column_end c, active_column c))
             (run (chip_reset zero_chip)
                [Deliver [CMD_CASET], PinChange DC HIGH \<lparr>cs_level = LOW, received = []\<rparr>,
                 Deliver [0, 5, 0, 10]])"
    by (simp_all add: chip_reset_def zero_chip_def chip_spi_done_def chip_pin_change_def
        spi_stop_nothing process_command_def process_command_body_def command_args_size_def
        process_command_args_body_def execute_command_def Let_def)
  have main: "run chip [Deliver [op], PinChange DC HIGH \<lparr>cs_level = l, received = []\<rparr>,
                   Deliver (xs @ ys)]
         = Some (execute_command
             (chip\<lparr>ram_write := False, command_code := op, command_size := 4,
                   mode := MODE_DATA,
                   command_buf := (command_buf chip)[0 := a0, 1 := a1, 2 := a2, 3 := a3],
                   command_index := 4\<rparr>))
     \<and> run chip [Deliver [op], PinChange DC HIGH \<lparr>cs_level = l, received = []\<rparr>,
                 Deliver xs, Deliver ys]
         = run chip [Deliver [op], PinChange DC HIGH \<lparr>cs_level = l, received = []\<rparr>,
                     Deliver (xs @ ys)]
     \<and> run chip [PinChange CS LOW \<lparr>cs_level = LOW, received = []\<rparr>,
                 PinChange DC HIGH \<lparr>cs_level = LOW, received = [op]\<rparr>,
                 PinChange CS HIGH \<lparr>cs_level = HIGH, received = xs @ ys\<rparr>]
         = run chip [Deliver [op], PinChange DC HIGH \<lparr>cs_level = l, received = []\<rparr>,
                     Deliver (xs @ ys)]"
    unfolding opcode_then_data_mode [OF op cm] one_transfer [OF op cm] split stop
    using whole by simp
  from main one_chunk show ?thesis
    by blast
qed

text \<open>
  Column-Address-Set with start 5 and end 10, the arguments as one byte and then three.
\<close>

theorem address_set_split_chunks_witness:
  "map_option (\<lambda>c. (column_start c, column_end c, active_column c))
      (run (chip_reset zero_chip)
         [Deliver [CMD_CASET], PinChange DC HIGH \<lparr>cs_level = LOW, received = []\<rparr>,
          Deliver [0], Deliver [5, 0, 10]])
    = Some (5, 10, 5)
   \<and> map_option (\<lambda>c. (column_start c, column_end c, active_column c))
      (run (chip_reset zero_chip)
         [Deliver [CMD_CASET], PinChange DC HIGH \<lparr>cs_level = LOW, received = []\<rparr>,
          Deliver ([0] @ [5, 0, 10])])
    = Some (5, 10, 5)
   \<and> map_option (\<lambda>c. (column_start c, column_end c, active_column c))
      (run (chip_reset zero_chip)
         [PinChange CS LOW \<lparr>cs_level = LOW, received = []\<rparr>,
          PinChange DC HIGH \<lparr>cs_level = LOW, received = [CMD_CASET]\<rparr>,
          PinChange CS HIGH \<lparr>cs_level = HIGH, received = [0] @ [5, 0, 10]\<rparr>])
    = Some (5, 10, 5)"
  using address_set_split_chunks [where op = CMD_CASET and chip = "chip_reset zero_chip"
      and xs = "[0]" and ys = "[5, 0, 10]" and ?a0.0 = 0 and ?a1.0 = 5 and ?a2.0 = 0
      and ?a3.0 = 10 and l = LOW]
  by (simp add: chip_reset_def zero_chip_def execute_command_def Let_def)

text \<open>
  C4 as stated fails: after a reset, Column-Address-Set with start 5 and end 10 sets the
  column window when the opcode and the arguments are two chunks, and leaves it at 0 to
  127 when the five bytes are one chunk, in command mode (each byte is a command of its
  own) as well as in data mode (no command is pending).
\<close>

theorem one_chunk_counterexample:
  "map_option (\<lambda>c. (column_start c, column_end c, active_column c))
      (run (chip_reset zero_chip)
         [Deliver [CMD_CASET], PinChange DC HIGH \<lparr>cs_level = LOW, received = []\<rparr>,
          Deliver [0, 5, 0, 10]])
    = Some (5, 10, 5)
   \<and> map_option (\<lambda>c. (column_start c, column_end c, active_column c))
      (run (chip_reset zero_chip) [Deliver [CMD_CASET, 0, 5, 0, 10]])
    = Some (0, 127, 0)
   \<and> map_option (\<lambda>c. (column_start c, column_end c, active_column c))
      (run (chip_reset zero_chip)
         [PinChange DC HIGH \<lparr>cs_level = LOW, received = []\<rparr>, Deliver [CMD_CASET, 0, 5, 0, 10]])
    = Some (0, 127, 0)"
  by (simp add: chip_reset_def zero_chip_def chip_spi_done_def chip_pin_change_def
      spi_stop_nothing process_command_def process_command_body_def command_args_size_def
      process_command_args_body_def execute_command_def Let_def)

subsection \<open>The parameter buffer\<close>

lemma advance_cursor_keeps_command:
  "command_code (advance_cursor chip) = command_code chip"
  "command_size (advance_cursor chip) = command_size chip"
  "command_index (advance_cursor chip) = command_index chip"
  "command_buf (advance_cursor chip) = command_buf chip"
  by (simp_all add: advance_cursor_def Let_def)

lemma process_data_body_keeps_command:
  "command_size (process_data_body chip v) = command_size chip"
  "command_index (process_data_body chip v) = command_index chip"
  "command_buf (process_data_body chip v) = command_buf chip"
  by (simp_all add: process_data_body_def Let_def advance_cursor_keeps_command)

lemma process_data_keeps_command:
  "command_size (process_data chip samples) = command_size chip
   \<and> command_index (process_data chip samples) = command_index chip
   \<and> command_buf (process_data chip samples) = command_buf chip"
  by (induction samples arbitrary: chip) (simp_all add: process_data_body_keeps_command)
















subsection \<open>What clears a pending command\<close>

lemma pending_kept_refl: "pending_kept chip chip"
  by (simp add: pending_kept_def)

lemma pending_kept_trans:
  assumes "pending_kept a b" and "pending_kept b c"
  shows "pending_kept a c"
proof -
  from assms have le: "unat (command_index a) \<le> unat (command_index b)"
    by (simp add: pending_kept_def word_le_nat_alt)
  have "take (unat (command_index a)) (command_buf c)
      = take (unat (command_index a)) (take (unat (command_index b)) (command_buf c))"
    using le by (simp add: min_def)
  also have "\<dots> = take (unat (command_index a)) (take (unat (command_index b)) (command_buf b))"
    using assms(2) by (simp only: pending_kept_def)
  also have "\<dots> = take (unat (command_index a)) (command_buf b)"
    using le by (simp add: min_def)
  also have "\<dots> = take (unat (command_index a)) (command_buf a)"
    using assms(1) by (simp only: pending_kept_def)
  finally show ?thesis
    using assms by (auto simp: pending_kept_def)
qed

lemma pending_kept_fields:
  assumes "command_code c = command_code b" and "command_size c = command_size b"
    and "command_index c = command_index b" and "command_buf c = command_buf b"
  shows "pending_kept a b \<Longrightarrow> pending_kept a c"
  using assms by (simp add: pending_kept_def)

lemma index_step:
  fixes i s :: "8 word"
  assumes "i < s"
  shows "i \<le> i + 1"
proof -
  from assms have "i \<noteq> - 1"
    by (metis word_order.extremum_strict)
  then have "i + 1 \<noteq> 0"
    by (metis add.commute add_eq_0_iff)
  then have "unat (1 + i) = Suc (unat i)"
    by (simp add: unatSuc add.commute)
  then show ?thesis
    by (simp add: word_le_nat_alt add.commute)
qed

lemma process_command_args_body_kept:
  assumes "process_command_args_body chip b = Some chip'"
  shows "pending_kept chip chip'"
proof (cases "command_index chip < command_size chip")
  case True
  from index_step [OF True] True assms show ?thesis
    by (auto simp: process_command_args_body_def Let_def pending_kept_def
        execute_command_keeps split: if_splits)
next
  case False
  with assms show ?thesis
    by (simp add: process_command_args_body_def pending_kept_refl)
qed

lemma process_command_args_kept:
  assumes "process_command_args chip buffer = Some chip'"
  shows "pending_kept chip chip'"
  using assms
proof (induction buffer arbitrary: chip)
  case Nil
  then show ?case by (simp add: pending_kept_refl)
next
  case (Cons b buffer)
  then obtain c where c: "process_command_args_body chip b = Some c"
    and rest: "process_command_args c buffer = Some chip'"
    by (auto split: option.splits)
  from process_command_args_body_kept [OF c] Cons.IH [OF rest]
  show ?case by (rule pending_kept_trans)
qed

lemma process_data_body_keeps_code:
  "command_code (process_data_body chip v) = command_code chip"
  by (simp add: process_data_body_def Let_def advance_cursor_keeps_command)

lemma process_data_keeps_code:
  "command_code (process_data chip samples) = command_code chip"
  by (induction samples arbitrary: chip) (simp_all add: process_data_body_keeps_code)

lemma chip_spi_done_kept:
  assumes "chip_spi_done chip buffer = Some chip'" and "mode chip = MODE_DATA \<or> buffer = []"
  shows "pending_kept chip chip'"
proof (cases "buffer = []")
  case True
  with assms(1) show ?thesis
    by (simp add: chip_spi_done_def pending_kept_refl)
next
  case False
  with assms(2) have m: "mode chip = MODE_DATA" by simp
  show ?thesis
  proof (cases "ram_write chip")
    case True
    with False m assms(1) have "chip' = process_data chip (buffer16 buffer)"
      by (simp add: chip_spi_done_def)
    then show ?thesis
      using process_data_keeps_command [of chip "buffer16 buffer"]
        process_data_keeps_code [of chip "buffer16 buffer"]
      by (simp add: pending_kept_def)
  next
    case F: False
    with False m assms(1) have "process_command_args chip buffer = Some chip'"
      by (simp add: chip_spi_done_def)
    then show ?thesis by (rule process_command_args_kept)
  qed
qed

text \<open>
  Every event is \<open>chip_spi_done\<close> on the bytes it hands over, followed by assignments
  that leave the four command fields alone.
\<close>

lemma handle_of_handed_over:
  assumes "chip_spi_done chip (handed_over chip e) = Some c"
  shows "\<exists>chip'. handle chip e = Some chip'
     \<and> command_code chip' = command_code c \<and> command_size chip' = command_size c
     \<and> command_index chip' = command_index c \<and> command_buf chip' = command_buf c"
proof (cases e)
  case (Deliver buffer)
  with assms show ?thesis by (simp add: handed_over_def)
next
  case (PinChange p v env)
  with assms show ?thesis
    by (cases p)
      (auto simp: handed_over_def chip_pin_change_def spi_stop_def chip_spi_done_def
        chip_reset_def split: if_splits)
qed

lemma handed_over_of_handle:
  assumes "handle chip e = Some chip'"
  shows "\<exists>c. chip_spi_done chip (handed_over chip e) = Some c
     \<and> command_code chip' = command_code c \<and> command_size chip' = command_size c
     \<and> command_index chip' = command_index c \<and> command_buf chip' = command_buf c"
proof (cases "chip_spi_done chip (handed_over chip e)")
  case None
  have "handle chip e = None"
  proof (cases e)
    case (Deliver buffer)
    with None show ?thesis by (simp add: handed_over_def)
  next
    case (PinChange p v env)
    with None show ?thesis
      by (cases p)
        (auto simp: handed_over_def chip_pin_change_def spi_stop_def chip_spi_done_def
          split: if_splits)
  qed
  with assms show ?thesis by simp
next
  case (Some c)
  from handle_of_handed_over [OF Some] assms Some show ?thesis by auto
qed

lemma nothing_handed_over:
  assumes "handed_over chip e = []"
  shows "\<exists>chip'. handle chip e = Some chip'
     \<and> command_code chip' = command_code chip \<and> command_size chip' = command_size chip
     \<and> command_index chip' = command_index chip \<and> command_buf chip' = command_buf chip"
proof -
  have "chip_spi_done chip (handed_over chip e) = Some chip"
    by (simp add: assms chip_spi_done_def)
  then show ?thesis by (rule handle_of_handed_over)
qed

lemma data_mode_keeps_pending:
  assumes "mode chip = MODE_DATA" and "handle chip e = Some chip'"
  shows "pending_kept chip chip'"
proof -
  from handed_over_of_handle [OF assms(2)]
  obtain c where c: "chip_spi_done chip (handed_over chip e) = Some c"
    and f: "command_code chip' = command_code c" "command_size chip' = command_size c"
      "command_index chip' = command_index c" "command_buf chip' = command_buf c"
    by blast
  have "pending_kept chip c"
    using c assms(1) by (intro chip_spi_done_kept) simp_all
  then show ?thesis
    using f by (rule pending_kept_fields [rotated -1])
qed

lemma process_command_last:
  assumes "buffer \<noteq> []"
  shows "command_code (process_command chip buffer) = last buffer
     \<and> command_index (process_command chip buffer) = 0
     \<and> command_size (process_command chip buffer) =
          (if last buffer = CMD_MADCTL then 1
           else if last buffer = CMD_CASET \<or> last buffer = CMD_RASET then 4 else 0)"
proof -
  from assms have "buffer = butlast buffer @ [last buffer]" by simp
  then have "process_command chip buffer
      = process_command_body (process_command chip (butlast buffer)) (last buffer)"
    by (metis process_command_snoc)
  then show ?thesis
    by (simp add: process_command_body_eq Let_def execute_command_keeps)
qed

lemma command_mode_clears_pending:
  assumes "mode chip \<noteq> MODE_DATA" and "handed_over chip e \<noteq> []"
  shows "\<exists>chip'. handle chip e = Some chip'
     \<and> command_code chip' = last (handed_over chip e) \<and> command_index chip' = 0
     \<and> command_size chip' =
          (if last (handed_over chip e) = CMD_MADCTL then 1
           else if last (handed_over chip e) = CMD_CASET \<or> last (handed_over chip e) = CMD_RASET
           then 4 else 0)"
proof -
  have "chip_spi_done chip (handed_over chip e) = Some (process_command chip (handed_over chip e))"
    using assms by (simp add: chip_spi_done_def)
  from handle_of_handed_over [OF this] process_command_last [OF assms(2), of chip]
  show ?thesis by auto
qed

lemma process_command_args_body_total:
  assumes "command_size chip \<le> 16"
  shows "\<exists>c. process_command_args_body chip b = Some c \<and> command_size c = command_size chip"
proof (cases "command_index chip < command_size chip")
  case True
  with assms have "unat (command_index chip) < unat (command_size chip)"
    "unat (command_size chip) \<le> 16"
    by (simp_all add: word_less_nat_alt word_le_nat_alt)
  then have "unat (command_index chip) < 16" by simp
  with True show ?thesis
    by (simp add: process_command_args_body_def Let_def execute_command_keeps)
next
  case False
  then show ?thesis by (simp add: process_command_args_body_def)
qed

lemma process_command_args_total:
  assumes "command_size chip \<le> 16"
  shows "\<exists>c. process_command_args chip buffer = Some c"
  using assms
proof (induction buffer arbitrary: chip)
  case Nil
  then show ?case by simp
next
  case (Cons b buffer)
  from process_command_args_body_total [OF Cons.prems, of b]
  obtain c where c: "process_command_args_body chip b = Some c"
    and s: "command_size c = command_size chip"
    by blast
  from Cons.prems s have "command_size c \<le> 16" by simp
  from Cons.IH [OF this] c show ?case by simp
qed

lemma data_mode_handles:
  assumes "mode chip = MODE_DATA \<and> command_size chip \<le> 16"
  shows "\<exists>chip'. handle chip e = Some chip'"
proof -
  from assms process_command_args_total [of chip "handed_over chip e"]
  have "\<exists>c. chip_spi_done chip (handed_over chip e) = Some c"
    by (auto simp: chip_spi_done_def)
  then obtain c where "chip_spi_done chip (handed_over chip e) = Some c" ..
  from handle_of_handed_over [OF this] show ?thesis by blast
qed

text \<open>
  C3, as the code has it. For every state, so also for one with a command whose
  arguments are still being received: when the select line goes high and then low again
  with no byte in flight, the chip is unchanged, command code, expected count, received
  count and received arguments included. A pending command is dropped by exactly one
  kind of event, bytes handed over in command mode: the last of them becomes the
  command code, with its own expected count and the received count 0. A single byte
  prints at most a warning for itself, when it is not a known command, none for the
  dropped command. Every other event keeps the pending command: an event that hands
  over no bytes (a change of the select line, of the mode line or of the reset line with
  nothing in flight, an empty chunk) keeps the four command fields as they are, and an
  event in data mode keeps the command code, the expected count and the arguments
  received so far, to which argument bytes are only added; with an expected count of at
  most 16 such an event always yields a state. In particular an active
  reset line does not drop the pending command: \<open>chip_reset\<close> keeps the command code,
  the expected count, the received count and the received arguments.
\<close>

theorem pending_command_kept_and_cleared:
  "run chip [PinChange CS HIGH \<lparr>cs_level = HIGH, received = []\<rparr>,
             PinChange CS LOW \<lparr>cs_level = LOW, received = []\<rparr>] = Some chip
   \<and> (mode chip \<noteq> MODE_DATA \<longrightarrow>
        (\<exists>chip'. chip_spi_done chip [b] = Some chip'
           \<and> command_code chip' = b \<and> command_index chip' = 0
           \<and> command_size chip' =
                 (if b = CMD_MADCTL then 1 else if b = CMD_CASET \<or> b = CMD_RASET then 4 else 0)
           \<and> stdout chip' = stdout chip @
                 (if b = CMD_RAMWR \<or> b = CMD_MADCTL \<or> b = CMD_CASET \<or> b = CMD_RASET
                  then [] else [b])))
   \<and> chip_pin_change chip RST LOW \<lparr>cs_level = l, received = []\<rparr> = Some (chip_reset chip)
   \<and> command_code (chip_reset chip) = command_code chip
   \<and> command_size (chip_reset chip) = command_size chip
   \<and> command_index (chip_reset chip) = command_index chip
   \<and> command_buf (chip_reset chip) = command_buf chip
   \<and> (mode chip \<noteq> MODE_DATA \<and> handed_over chip e \<noteq> [] \<longrightarrow>
        (\<exists>chip'. handle chip e = Some chip'
           \<and> command_code chip' = last (handed_over chip e) \<and> command_index chip' = 0
           \<and> command_size chip' =
                 (if last (handed_over chip e) = CMD_MADCTL then 1
                  else if last (handed_over chip e) = CMD_CASET
                          \<or> last (handed_over chip e) = CMD_RASET
                  then 4 else 0)))
   \<and> (handed_over chip e = [] \<longrightarrow>
        (\<exists>chip'. handle chip e = Some chip'
           \<and> command_code chip' = command_code chip \<and> command_size chip' = command_size chip
           \<and> command_index chip' = command_index chip \<and> command_buf chip' = command_buf chip))
   \<and> (mode chip = MODE_DATA \<longrightarrow>
        (\<forall>chip'. handle chip e = Some chip' \<longrightarrow> pending_kept chip chip'))
   \<and> (mode chip = MODE_DATA \<and> command_size chip \<le> 16 \<longrightarrow>
        (\<exists>chip'. handle chip e = Some chip' \<and> pending_kept chip chip'))"
proof -
  have reset: "chip_pin_change chip RST LOW \<lparr>cs_level = l, received = []\<rparr>
      = Some (chip_reset chip)"
    by (simp add: chip_pin_change_def spi_stop_nothing)
  have old: "mode chip \<noteq> MODE_DATA \<longrightarrow>
        (\<exists>chip'. chip_spi_done chip [b] = Some chip'
           \<and> command_code chip' = b \<and> command_index chip' = 0
           \<and> command_size chip' =
                 (if b = CMD_MADCTL then 1 else if b = CMD_CASET \<or> b = CMD_RASET then 4 else 0)
           \<and> stdout chip' = stdout chip @
                 (if b = CMD_RAMWR \<or> b = CMD_MADCTL \<or> b = CMD_CASET \<or> b = CMD_RASET
                  then [] else [b]))"
    using command_byte_clears [of chip b] by blast
  have clear: "mode chip \<noteq> MODE_DATA \<and> handed_over chip e \<noteq> [] \<longrightarrow>
        (\<exists>chip'. handle chip e = Some chip'
           \<and> command_code chip' = last (handed_over chip e) \<and> command_index chip' = 0
           \<and> command_size chip' =
                 (if last (handed_over chip e) = CMD_MADCTL then 1
                  else if last (handed_over chip e) = CMD_CASET
                          \<or> last (handed_over chip e) = CMD_RASET
                  then 4 else 0))"
    using command_mode_clears_pending [of chip e] by blast
  have none: "handed_over chip e = [] \<longrightarrow>
        (\<exists>chip'. handle chip e = Some chip'
           \<and> command_code chip' = command_code chip \<and> command_size chip' = command_size chip
           \<and> command_index chip' = command_index chip \<and> command_buf chip' = command_buf chip)"
    using nothing_handed_over [of chip e] by blast
  have data: "mode chip = MODE_DATA \<longrightarrow>
        (\<forall>chip'. handle chip e = Some chip' \<longrightarrow> pending_kept chip chip')"
    using data_mode_keeps_pending [of chip e] by blast
  have total: "mode chip = MODE_DATA \<and> command_size chip \<le> 16 \<longrightarrow>
        (\<exists>chip'. handle chip e = Some chip' \<and> pending_kept chip chip')"
    using data_mode_handles [of chip e] data_mode_keeps_pending [of chip e] by blast
  show ?thesis
    by (intro conjI select_stop_restart old reset chip_reset_keeps_command clear none data
        total)
qed

text \<open>
  A chip in command mode with two of four arguments received gets a Memory-Write byte.
  The same chip keeps its two arguments when the mode line rises with nothing in flight,
  and then, in data mode, takes a third argument after them.
\<close>

theorem pending_command_kept_and_cleared_witness:
  "mode pending_chip \<noteq> MODE_DATA
   \<and> command_index pending_chip < command_size pending_chip
   \<and> map_option (\<lambda>c. (command_code c, command_size c, command_index c, stdout c))
         (chip_spi_done pending_chip [CMD_RAMWR])
       = Some (CMD_RAMWR, 0, 0, [])
   \<and> handed_over pending_chip (PinChange DC HIGH \<lparr>cs_level = LOW, received = []\<rparr>) = []
   \<and> map_option (\<lambda>c. (mode c, command_code c, command_size c, command_index c, command_buf c))
         (handle pending_chip (PinChange DC HIGH \<lparr>cs_level = LOW, received = []\<rparr>))
       = Some (MODE_DATA, CMD_CASET, 4, 2, [0, 5, 0, 0, 0, 0, 0, 0, 0, 0, 0, 0, 0, 0, 0, 0])
   \<and> map_option (\<lambda>c. (command_code c, command_size c, command_index c, command_buf c))
         (handle (pending_chip\<lparr>mode := MODE_DATA\<rparr>) (Deliver [7]))
       = Some (CMD_CASET, 4, 3, [0, 5, 7, 0, 0, 0, 0, 0, 0, 0, 0, 0, 0, 0, 0, 0])"
  using pending_command_kept_and_cleared [where chip = pending_chip and b = CMD_RAMWR
      and e = "PinChange DC HIGH \<lparr>cs_level = LOW, received = []\<rparr>"]
    pending_command_kept_and_cleared [where chip = "pending_chip\<lparr>mode := MODE_DATA\<rparr>"
      and e = "Deliver [7]"]
  by (auto simp: pending_chip_def zero_chip_def handed_over_def chip_pin_change_def
      spi_stop_nothing chip_spi_done_def process_command_args_body_def Let_def)

text \<open>
  C3 as stated fails on the reset line: a chip with two of the four arguments of a
  Column-Address-Set received still has them, and still waits for the other two, after
  the reset line went low.
\<close>

theorem reset_keeps_pending_counterexample:
  "command_index pending_chip < command_size pending_chip
   \<and> map_option (\<lambda>c. (command_code c, command_size c, command_index c, command_buf c))
         (chip_pin_change pending_chip RST LOW \<lparr>cs_level = HIGH, received = []\<rparr>)
       = Some (CMD_CASET, 4, 2, [0, 5, 0, 0, 0, 0, 0, 0, 0, 0, 0, 0, 0, 0, 0, 0])
   \<and> map_option (\<lambda>c. command_index c < command_size c)
         (chip_pin_change pending_chip RST LOW \<lparr>cs_level = HIGH, received = []\<rparr>)
       = Some True"
  by (simp add: pending_chip_def zero_chip_def chip_pin_change_def spi_stop_nothing chip_reset_def)

subsection \<open>Pixel writes\<close>

lemma advance_cursor_keeps:
  "framebuffer (advance_cursor chip) = framebuffer chip"
  "width (advance_cursor chip) = width chip"
  "height (advance_cursor chip) = height chip"
  "scanning_direction (advance_cursor chip) = scanning_direction chip"
  "column_start (advance_cursor chip) = column_start chip"
  "column_end (advance_cursor chip) = column_end chip"
  "row_start (advance_cursor chip) = row_start chip"
  "row_end (advance_cursor chip) = row_end chip"
  by (simp_all add: advance_cursor_def Let_def)

lemma process_data_body_keeps:
  "width (process_data_body chip v) = width chip"
  "height (process_data_body chip v) = height chip"
  "scanning_direction (process_data_body chip v) = scanning_direction chip"
  "column_start (process_data_body chip v) = column_start chip"
  "column_end (process_data_body chip v) = column_end chip"
  "row_start (process_data_body chip v) = row_start chip"
  "row_end (process_data_body chip v) = row_end chip"
  by (simp_all add: process_data_body_def Let_def advance_cursor_keeps)

lemma process_data_keeps:
  "width (process_data chip samples) = width chip
   \<and> height (process_data chip samples) = height chip
   \<and> scanning_direction (process_data chip samples) = scanning_direction chip
   \<and> column_start (process_data chip samples) = column_start chip
   \<and> column_end (process_data chip samples) = column_end chip
   \<and> row_start (process_data chip samples) = row_start chip
   \<and> row_end (process_data chip samples) = row_end chip"
  by (induction samples arbitrary: chip) (simp_all add: process_data_body_keeps)

lemma process_data_append:
  "process_data chip (xs @ ys) = process_data (process_data chip xs) ys"
  by (induction xs arbitrary: chip) simp_all

lemma sink_x_spec:
  "sink_x chip = spec_sink_x (bit (scanning_direction chip) 5) (bit (scanning_direction chip) 6)
     (bit (scanning_direction chip) 7) (width chip) (active_column chip)"
  by (simp add: sink_x_def spec_sink_x_def Let_def swap_bit mx_bit my_bit)

lemma sink_y_spec:
  "sink_y chip = spec_sink_y (bit (scanning_direction chip) 5) (bit (scanning_direction chip) 6)
     (bit (scanning_direction chip) 7) (height chip) (active_row chip)"
  by (simp add: sink_y_def spec_sink_y_def Let_def swap_bit mx_bit my_bit)

lemma process_data_body_write:
  "framebuffer (process_data_body chip v)
     = framebuffer chip @ [((sink_y chip * width chip + sink_x chip) * 4, rgb565_to_rgba v)]"
  by (simp add: process_data_body_def Let_def advance_cursor_keeps)

text \<open>
  C7. The writes of \<open>process_data\<close>, in order: sample \<open>i\<close> is written with the cursor
  (col, row) that the samples before it have left, at the byte offset
  \<open>(y * width + x) * 4\<close>, in the arithmetic of \<open>uint32_t\<close>, where with swap-axes (bit 5 of
  the orientation register) set \<open>x\<close> is \<open>width - 1 - col\<close> under mirror-X (bit 6) and \<open>col\<close>
  otherwise and \<open>y\<close> is \<open>height - 1 - row\<close> under mirror-Y (bit 7) and \<open>row\<close> otherwise,
  and with swap-axes clear mirror-Y decides for \<open>x\<close> and mirror-X for \<open>y\<close>. The value
  written is the conversion of the sample.
\<close>

theorem pixel_writes:
  "framebuffer (process_data chip samples) =
     framebuffer chip @
     map (\<lambda>i. let c = process_data chip (take i samples);
                  sd = scanning_direction chip;
                  x = spec_sink_x (bit sd 5) (bit sd 6) (bit sd 7) (width chip) (active_column c);
                  y = spec_sink_y (bit sd 5) (bit sd 6) (bit sd 7) (height chip) (active_row c)
              in ((y * width chip + x) * 4, rgb565_to_rgba (samples ! i)))
       [0..<length samples]"
proof (induction samples rule: rev_induct)
  case Nil
  then show ?case by simp
next
  case (snoc v samples)
  let ?f = "\<lambda>ss i. let c = process_data chip (take i ss);
                  sd = scanning_direction chip;
                  x = spec_sink_x (bit sd 5) (bit sd 6) (bit sd 7) (width chip) (active_column c);
                  y = spec_sink_y (bit sd 5) (bit sd 6) (bit sd 7) (height chip) (active_row c)
              in ((y * width chip + x) * 4, rgb565_to_rgba (ss ! i))"
  let ?c = "process_data chip samples"
  have old: "map (?f (samples @ [v])) [0..<length samples] = map (?f samples) [0..<length samples]"
    by (rule map_cong) (simp_all add: nth_append)
  have new: "?f (samples @ [v]) (length samples)
      = ((sink_y ?c * width ?c + sink_x ?c) * 4, rgb565_to_rgba v)"
    using process_data_keeps [of chip samples]
    by (simp add: Let_def sink_x_spec sink_y_spec)
  have "framebuffer (process_data chip (samples @ [v]))
      = framebuffer ?c @ [((sink_y ?c * width ?c + sink_x ?c) * 4, rgb565_to_rgba v)]"
    by (simp add: process_data_append process_data_body_write)
  also have "\<dots> = framebuffer chip @ map (?f samples) [0..<length samples]
      @ [?f (samples @ [v]) (length samples)]"
    by (simp only: snoc.IH new append_assoc)
  also have "\<dots> = framebuffer chip @ map (?f (samples @ [v])) [0..<length (samples @ [v])]"
    by (simp only: old [symmetric] length_append_singleton upt_Suc_append [OF le0] map_append
        list.map)
  finally show ?case .
qed

text \<open>
  After a reset on the surface of 128 by 160, mirror-X alone: the rows are mirrored, and
  two samples go to the first two pixels of the last row.
\<close>

theorem pixel_writes_witness:
  "framebuffer (process_data ((chip_reset zero_chip)\<lparr>scanning_direction := SCAN_MX\<rparr>)
      [0xf800, 0x07e0])
   = [((159 * 128 + 0) * 4, 0xff0000f8), ((159 * 128 + 1) * 4, 0xff00fc00)]"
  using pixel_writes [of "(chip_reset zero_chip)\<lparr>scanning_direction := SCAN_MX\<rparr>"
      "[0xf800, 0x07e0]"]
  by (simp add: chip_reset_def zero_chip_def process_data_body_def advance_cursor_def
      sink_x_def sink_y_def rgb565_to_rgba_def Let_def)

subsection \<open>The cursor\<close>

lemma unat_succ:
  fixes x :: "32 word"
  assumes "x \<le> e" and "e \<noteq> - 1"
  shows "unat (x + 1) = unat x + 1"
proof -
  have "x \<noteq> - 1"
    using assms by (metis word_order.extremum_unique)
  then have "x + 1 \<noteq> 0"
    by (metis add.commute add_eq_0_iff)
  then show ?thesis
    by (metis Suc_eq_plus1 add.commute unatSuc)
qed

lemma unat_mirror:
  fixes x w :: "32 word"
  assumes "x < w"
  shows "unat (w - 1 - x) = unat w - 1 - unat x"
proof -
  from assms have "unat x < unat w" by (simp add: word_less_nat_alt)
  then have "1 \<le> w" by (simp add: word_le_nat_alt)
  then have a: "unat (w - 1) = unat w - 1" by (simp add: unat_sub)
  have "x \<le> w - 1"
    using \<open>unat x < unat w\<close> a by (simp add: word_le_nat_alt)
  then show ?thesis by (simp add: unat_sub a)
qed

lemma unat_times_le: "unat (a * b :: 32 word) \<le> unat a * unat b"
  by (simp add: unat_word_ariths)

lemma unat_plus_le: "unat (a + b :: 32 word) \<le> unat a + unat b"
  by (simp add: unat_word_ariths)

lemma offset_in_surface:
  fixes x y w h :: "32 word"
  assumes "x < w" and "y < h"
  shows "unat ((y * w + x) * 4) < unat w * unat h * 4"
proof -
  from assms have xy: "unat x < unat w" "unat y < unat h"
    by (simp_all add: word_less_nat_alt)
  have "unat (y * w + x) \<le> unat y * unat w + unat x"
    using unat_plus_le [of "y * w" x] unat_times_le [of y w] by linarith
  also have "\<dots> < (unat y + 1) * unat w"
    using xy by simp
  also have "\<dots> \<le> unat h * unat w"
    using xy by (intro mult_le_mono1) simp
  finally have "unat (y * w + x) < unat w * unat h"
    by (simp add: mult.commute)
  moreover have "unat ((y * w + x) * 4) \<le> unat (y * w + x) * 4"
    using unat_times_le [of "y * w + x" 4] by simp
  ultimately show ?thesis by linarith
qed


text \<open>One advance of the cursor, in natural numbers, for each of the two scan orders.\<close>

lemma advance_cursor_column_fast:
  assumes "\<not> bit (scanning_direction chip) 5" and "cursor_in_window chip"
    and "column_end chip \<noteq> - 1" and "row_end chip \<noteq> - 1"
  shows "unat (active_column (advance_cursor chip)) =
           (if unat (active_column chip) < unat (column_end chip)
            then unat (active_column chip) + 1 else unat (column_start chip))"
    and "unat (active_row (advance_cursor chip)) =
           (if unat (active_column chip) < unat (column_end chip) then unat (active_row chip)
            else if unat (active_row chip) < unat (row_end chip) then unat (active_row chip) + 1
            else unat (row_start chip))"
proof -
  from assms(2) have le: "active_column chip \<le> column_end chip" "active_row chip \<le> row_end chip"
    by (simp_all add: cursor_in_window_def)
  note inc = unat_succ [OF le(1) assms(3)] unat_succ [OF le(2) assms(4)]
  from le have nle: "unat (active_column chip) \<le> unat (column_end chip)"
    "unat (active_row chip) \<le> unat (row_end chip)"
    by (simp_all add: word_le_nat_alt)
  show "unat (active_column (advance_cursor chip)) =
           (if unat (active_column chip) < unat (column_end chip)
            then unat (active_column chip) + 1 else unat (column_start chip))"
    using assms(1) nle
    by (auto simp: advance_cursor_def Let_def swap_bit word_less_nat_alt inc)
  show "unat (active_row (advance_cursor chip)) =
           (if unat (active_column chip) < unat (column_end chip) then unat (active_row chip)
            else if unat (active_row chip) < unat (row_end chip) then unat (active_row chip) + 1
            else unat (row_start chip))"
    using assms(1) nle
    by (auto simp: advance_cursor_def Let_def swap_bit word_less_nat_alt inc)
qed

lemma advance_cursor_row_fast:
  assumes "bit (scanning_direction chip) 5" and "cursor_in_window chip"
    and "column_end chip \<noteq> - 1" and "row_end chip \<noteq> - 1"
  shows "unat (active_row (advance_cursor chip)) =
           (if unat (active_row chip) < unat (row_end chip)
            then unat (active_row chip) + 1 else unat (row_start chip))"
    and "unat (active_column (advance_cursor chip)) =
           (if unat (active_row chip) < unat (row_end chip) then unat (active_column chip)
            else if unat (active_column chip) < unat (column_end chip)
            then unat (active_column chip) + 1
            else unat (column_start chip))"
proof -
  from assms(2) have le: "active_column chip \<le> column_end chip" "active_row chip \<le> row_end chip"
    by (simp_all add: cursor_in_window_def)
  note inc = unat_succ [OF le(1) assms(3)] unat_succ [OF le(2) assms(4)]
  from le have nle: "unat (active_column chip) \<le> unat (column_end chip)"
    "unat (active_row chip) \<le> unat (row_end chip)"
    by (simp_all add: word_le_nat_alt)
  show "unat (active_row (advance_cursor chip)) =
           (if unat (active_row chip) < unat (row_end chip)
            then unat (active_row chip) + 1 else unat (row_start chip))"
    using assms(1) nle
    by (auto simp: advance_cursor_def Let_def swap_bit word_less_nat_alt inc)
  show "unat (active_column (advance_cursor chip)) =
           (if unat (active_row chip) < unat (row_end chip) then unat (active_column chip)
            else if unat (active_column chip) < unat (column_end chip)
            then unat (active_column chip) + 1
            else unat (column_start chip))"
    using assms(1) nle
    by (auto simp: advance_cursor_def Let_def swap_bit word_less_nat_alt inc)
qed

lemma cursor_in_window_unat:
  "cursor_in_window chip \<longleftrightarrow>
     unat (column_start chip) \<le> unat (active_column chip)
     \<and> unat (active_column chip) \<le> unat (column_end chip)
     \<and> unat (row_start chip) \<le> unat (active_row chip)
     \<and> unat (active_row chip) \<le> unat (row_end chip)"
  by (simp add: cursor_in_window_def word_le_nat_alt)

lemma advance_cursor_in_window:
  assumes "cursor_in_window chip" and "column_end chip \<noteq> - 1" and "row_end chip \<noteq> - 1"
  shows "cursor_in_window (advance_cursor chip)"
proof (cases "bit (scanning_direction chip) 5")
  case True
  from advance_cursor_row_fast [OF True assms] assms(1) show ?thesis
    by (simp add: cursor_in_window_unat advance_cursor_keeps)
next
  case False
  from advance_cursor_column_fast [OF False assms] assms(1) show ?thesis
    by (simp add: cursor_in_window_unat advance_cursor_keeps)
qed


lemma process_data_body_in_window:
  assumes "cursor_in_window chip" and "column_end chip \<noteq> - 1" and "row_end chip \<noteq> - 1"
  shows "cursor_in_window (process_data_body chip v)"
proof -
  let ?c = "chip\<lparr>framebuffer := framebuffer chip
      @ [((sink_y chip * width chip + sink_x chip) * 4, rgb565_to_rgba v)]\<rparr>"
  have "cursor_in_window ?c" "column_end ?c \<noteq> - 1" "row_end ?c \<noteq> - 1"
    using assms by (simp_all add: cursor_in_window_def)
  then have "cursor_in_window (advance_cursor ?c)"
    by (rule advance_cursor_in_window)
  then show ?thesis
    by (simp add: process_data_body_def Let_def)
qed

lemma process_data_in_window:
  assumes "cursor_in_window chip" and "column_end chip \<noteq> - 1" and "row_end chip \<noteq> - 1"
  shows "cursor_in_window (process_data chip samples)"
  using assms
proof (induction samples arbitrary: chip)
  case Nil
  then show ?case by simp
next
  case (Cons v samples)
  have "cursor_in_window (process_data_body chip v)"
    using Cons.prems by (rule process_data_body_in_window)
  moreover have "column_end (process_data_body chip v) \<noteq> - 1"
    "row_end (process_data_body chip v) \<noteq> - 1"
    using Cons.prems by (simp_all add: process_data_body_keeps)
  ultimately show ?case
    using Cons.IH by simp
qed

subsection \<open>Writes stay on the surface\<close>

lemma less_not_max:
  fixes e w :: "32 word"
  shows "e < w \<Longrightarrow> e \<noteq> - 1"
  by (metis word_order.extremum_strict)

lemma mirror_less:
  fixes x w :: "32 word"
  assumes "x < w"
  shows "w - 1 - x < w"
proof -
  from assms have "unat x < unat w" by (simp add: word_less_nat_alt)
  then show ?thesis
    by (simp add: word_less_nat_alt unat_mirror [OF assms])
qed

lemma sink_on_surface:
  assumes "cursor_in_window chip"
    and "column_end chip < width chip" and "row_end chip < height chip"
  shows "sink_x chip < width chip" and "sink_y chip < height chip"
proof -
  from assms have x: "active_column chip < width chip" and y: "active_row chip < height chip"
    by (auto simp: cursor_in_window_def)
  show "sink_x chip < width chip"
    using x mirror_less [OF x] by (simp add: sink_x_def Let_def)
  show "sink_y chip < height chip"
    using y mirror_less [OF y] by (simp add: sink_y_def Let_def)
qed

lemma writes_on_surface:
  assumes "cursor_in_window chip"
    and "column_end chip < width chip" and "row_end chip < height chip"
  shows "\<exists>ws. framebuffer (process_data chip samples) = framebuffer chip @ ws
     \<and> length ws = length samples
     \<and> (\<forall>w \<in> set ws. unat (fst w) < unat (width chip) * unat (height chip) * 4)"
  using assms
proof (induction samples arbitrary: chip)
  case Nil
  then show ?case by simp
next
  case (Cons v samples)
  let ?c = "process_data_body chip v"
  let ?w = "((sink_y chip * width chip + sink_x chip) * 4, rgb565_to_rgba v)"
  have in_w: "cursor_in_window ?c"
    using Cons.prems by (intro process_data_body_in_window) (auto dest: less_not_max)
  have "column_end ?c < width ?c" "row_end ?c < height ?c"
    using Cons.prems by (simp_all add: process_data_body_keeps)
  from Cons.IH [OF in_w this]
  obtain ws where ws: "framebuffer (process_data ?c samples) = framebuffer ?c @ ws"
    "length ws = length samples"
    "\<forall>w \<in> set ws. unat (fst w) < unat (width chip) * unat (height chip) * 4"
    by (auto simp: process_data_body_keeps)
  have first: "unat (fst ?w) < unat (width chip) * unat (height chip) * 4"
    using offset_in_surface [OF sink_on_surface [OF Cons.prems]] by simp
  have "framebuffer (process_data chip (v # samples)) = framebuffer chip @ (?w # ws)"
    by (simp add: ws(1) process_data_body_write)
  moreover have "length (?w # ws) = length (v # samples)"
    by (simp add: ws(2))
  moreover have "\<forall>w \<in> set (?w # ws). unat (fst w) < unat (width chip) * unat (height chip) * 4"
    using first ws(3) by simp
  ultimately show ?case by blast
qed


text \<open>
  C9. The window lies on the surface and the cursor in the window. Then each sample of
  a chunk makes one write, and the byte offset of every write, read as a natural number,
  is below \<open>width * height * 4\<close>, whatever the orientation flags and however many samples
  there are.
\<close>

theorem writes_within_surface:
  assumes "column_start chip \<le> column_end chip" and "column_end chip < width chip"
    and "row_start chip \<le> row_end chip" and "row_end chip < height chip"
    and "cursor_in_window chip"
  shows "length (framebuffer (process_data chip samples))
           = length (framebuffer chip) + length samples
     \<and> (\<forall>(offset, rgba) \<in> set (drop (length (framebuffer chip))
                                      (framebuffer (process_data chip samples))).
           unat offset < unat (width chip) * unat (height chip) * 4)"
proof -
  from writes_on_surface [OF assms(5) assms(2) assms(4), of samples]
  obtain ws where ws: "framebuffer (process_data chip samples) = framebuffer chip @ ws"
    "length ws = length samples"
    "\<forall>w \<in> set ws. unat (fst w) < unat (width chip) * unat (height chip) * 4"
    by blast
  then show ?thesis
    by (auto simp: ws(1))
qed

text \<open>
  After a reset on the surface of 128 by 160, all three flags set: the first write is the
  last pixel of the surface.
\<close>

theorem writes_within_surface_witness:
  "cursor_in_window ((chip_reset zero_chip)\<lparr>scanning_direction := 0xe0\<rparr>)
   \<and> framebuffer (process_data ((chip_reset zero_chip)\<lparr>scanning_direction := 0xe0\<rparr>)
        [0xf800, 0x07e0])
      = [(81916, 0xff0000f8), (81404, 0xff00fc00)]
   \<and> unat (81916 :: 32 word) < 128 * 160 * 4"
  using writes_within_surface [of "(chip_reset zero_chip)\<lparr>scanning_direction := 0xe0\<rparr>"
      "[0xf800, 0x07e0]"]
  by (simp add: chip_reset_def zero_chip_def cursor_in_window_def process_data_body_def
      advance_cursor_def sink_x_def sink_y_def rgb565_to_rgba_def Let_def)

subsection \<open>Raster order\<close>

lemma raster_step:
  fixes i j W H :: nat
  assumes "i < W" and "j < H"
  shows "(if i + 1 < W then j * W + (i + 1) else if j + 1 < H then (j + 1) * W else 0)
         = (j * W + i + 1) mod (W * H)"
proof -
  have up: "(j + 1) * W \<le> H * W"
    using assms(2) by (intro mult_le_mono1) simp
  show ?thesis
  proof (cases "i + 1 < W")
    case True
    then have "j * W + i + 1 < (j + 1) * W" by simp
    with up have "j * W + i + 1 < W * H" by (simp add: mult.commute)
    with True show ?thesis by simp
  next
    case False
    with assms(1) have iW: "i + 1 = W" by simp
    then have eq: "j * W + i + 1 = (j + 1) * W" by simp
    show ?thesis
    proof (cases "j + 1 < H")
      case True
      then have "(j + 1) * W < H * W"
        using iW by (intro mult_less_mono1) simp_all
      then have "(j + 1) * W < W * H" by (simp add: mult.commute)
      with False True eq show ?thesis by simp
    next
      case F2: False
      with assms(2) have "j + 1 = H" by simp
      then have "(j + 1) * W = W * H" by (simp only: mult.commute)
      with eq have "j * W + i + 1 = W * H" by (simp only:)
      with False F2 show ?thesis by simp
    qed
  qed
qed

lemma raster_index_less:
  fixes i j W H :: nat
  assumes "i < W" and "j < H"
  shows "j * W + i < W * H"
proof -
  have "j * W + i < (j + 1) * W" using assms(1) by simp
  also have "\<dots> \<le> H * W" using assms(2) by (intro mult_le_mono1) simp
  finally show ?thesis by (simp add: mult.commute)
qed


lemma advance_cursor_window:
  "window_width (advance_cursor chip) = window_width chip"
  "window_height (advance_cursor chip) = window_height chip"
  "window_area (advance_cursor chip) = window_area chip"
  by (simp_all add: window_width_def window_height_def window_area_def advance_cursor_keeps)

lemma advance_raster_index:
  assumes win: "cursor_in_window chip"
    and ce: "column_end chip \<noteq> - 1" and re: "row_end chip \<noteq> - 1"
  shows "raster_index (advance_cursor chip) = (raster_index chip + 1) mod window_area chip"
proof -
  define i where "i = unat (active_column chip) - unat (column_start chip)"
  define j where "j = unat (active_row chip) - unat (row_start chip)"
  define W where "W = window_width chip"
  define H where "H = window_height chip"
  from win have n: "unat (column_start chip) \<le> unat (active_column chip)"
    "unat (active_column chip) \<le> unat (column_end chip)"
    "unat (row_start chip) \<le> unat (active_row chip)"
    "unat (active_row chip) \<le> unat (row_end chip)"
    by (simp_all add: cursor_in_window_unat)
  have iW: "i < W" and jH: "j < H"
    using n by (simp_all add: i_def j_def W_def H_def window_width_def window_height_def)
  have ci: "unat (active_column chip) < unat (column_end chip) \<longleftrightarrow> i + 1 < W"
    using n by (auto simp: i_def W_def window_width_def)
  have rj: "unat (active_row chip) < unat (row_end chip) \<longleftrightarrow> j + 1 < H"
    using n by (auto simp: j_def H_def window_height_def)
  have i1: "Suc (unat (active_column chip)) - unat (column_start chip) = Suc i"
    using n by (simp add: i_def)
  have j1: "Suc (unat (active_row chip)) - unat (row_start chip) = Suc j"
    using n by (simp add: j_def)
  show ?thesis
  proof (cases "bit (scanning_direction chip) 5")
    case False
    have "raster_index (advance_cursor chip)
        = (if i + 1 < W then j * W + (i + 1) else if j + 1 < H then (j + 1) * W else 0)"
      using False advance_cursor_column_fast [OF False win ce re]
      by (simp add: raster_index_def advance_cursor_keeps advance_cursor_window ci rj i1 j1
          flip: i_def j_def W_def H_def)
    also have "\<dots> = (j * W + i + 1) mod (W * H)"
      by (rule raster_step [OF iW jH])
    also have "\<dots> = (raster_index chip + 1) mod window_area chip"
      using False by (simp add: raster_index_def window_area_def i_def j_def W_def H_def)
    finally show ?thesis .
  next
    case True
    have "raster_index (advance_cursor chip)
        = (if j + 1 < H then i * H + (j + 1) else if i + 1 < W then (i + 1) * H else 0)"
      using True advance_cursor_row_fast [OF True win ce re]
      by (simp add: raster_index_def advance_cursor_keeps advance_cursor_window ci rj i1 j1
          flip: i_def j_def W_def H_def)
    also have "\<dots> = (i * H + j + 1) mod (H * W)"
      by (rule raster_step [OF jH iW])
    also have "\<dots> = (raster_index chip + 1) mod window_area chip"
      using True
      by (simp add: raster_index_def window_area_def i_def j_def W_def H_def mult.commute)
    finally show ?thesis .
  qed
qed


lemma process_data_body_raster_index:
  assumes "cursor_in_window chip" and "column_end chip \<noteq> - 1" and "row_end chip \<noteq> - 1"
  shows "raster_index (process_data_body chip v) = (raster_index chip + 1) mod window_area chip"
proof -
  let ?c = "chip\<lparr>framebuffer := framebuffer chip
      @ [((sink_y chip * width chip + sink_x chip) * 4, rgb565_to_rgba v)]\<rparr>"
  have "cursor_in_window ?c" "column_end ?c \<noteq> - 1" "row_end ?c \<noteq> - 1"
    using assms by (simp_all add: cursor_in_window_def)
  then have "raster_index (advance_cursor ?c) = (raster_index ?c + 1) mod window_area ?c"
    by (rule advance_raster_index)
  moreover have "raster_index ?c = raster_index chip" "window_area ?c = window_area chip"
    by (simp_all add: raster_index_def window_area_def window_width_def window_height_def)
  ultimately show ?thesis
    by (simp add: process_data_body_def Let_def)
qed

lemma process_data_body_window:
  "window_area (process_data_body chip v) = window_area chip"
  by (simp add: window_area_def window_width_def window_height_def process_data_body_keeps)

lemma raster_index_in_area:
  assumes "cursor_in_window chip"
  shows "raster_index chip < window_area chip"
proof -
  from assms have n: "unat (column_start chip) \<le> unat (active_column chip)"
    "unat (active_column chip) \<le> unat (column_end chip)"
    "unat (row_start chip) \<le> unat (active_row chip)"
    "unat (active_row chip) \<le> unat (row_end chip)"
    by (simp_all add: cursor_in_window_unat)
  have i: "unat (active_column chip) - unat (column_start chip) < window_width chip"
    and j: "unat (active_row chip) - unat (row_start chip) < window_height chip"
    using n by (simp_all add: window_width_def window_height_def)
  show ?thesis
    using raster_index_less [OF i j] raster_index_less [OF j i]
    by (simp add: raster_index_def window_area_def mult.commute)
qed

lemma process_data_raster_index:
  assumes "cursor_in_window chip" and "column_end chip \<noteq> - 1" and "row_end chip \<noteq> - 1"
  shows "raster_index (process_data chip samples)
         = (raster_index chip + length samples) mod window_area chip"
  using assms
proof (induction samples arbitrary: chip)
  case Nil
  then show ?case
    using raster_index_in_area [of chip] by simp
next
  case (Cons v samples)
  let ?c = "process_data_body chip v"
  have "cursor_in_window ?c"
    using Cons.prems by (rule process_data_body_in_window)
  moreover have "column_end ?c \<noteq> - 1" "row_end ?c \<noteq> - 1"
    using Cons.prems by (simp_all add: process_data_body_keeps)
  ultimately have "raster_index (process_data ?c samples)
      = (raster_index ?c + length samples) mod window_area ?c"
    by (rule Cons.IH)
  also have "\<dots> = ((raster_index chip + 1) mod window_area chip + length samples)
      mod window_area chip"
    by (simp only: process_data_body_raster_index [OF Cons.prems] process_data_body_window)
  also have "\<dots> = (raster_index chip + length (v # samples)) mod window_area chip"
    by (simp add: mod_add_left_eq)
  finally show ?case by simp
qed

lemma raster_position_of_index:
  assumes "cursor_in_window chip"
  shows "raster_position chip (raster_index chip)
         = (unat (active_column chip), unat (active_row chip))"
proof -
  define i where "i = unat (active_column chip) - unat (column_start chip)"
  define j where "j = unat (active_row chip) - unat (row_start chip)"
  from assms have n: "unat (column_start chip) \<le> unat (active_column chip)"
    "unat (active_column chip) \<le> unat (column_end chip)"
    "unat (row_start chip) \<le> unat (active_row chip)"
    "unat (active_row chip) \<le> unat (row_end chip)"
    by (simp_all add: cursor_in_window_unat)
  have i: "i < window_width chip" and j: "j < window_height chip"
    using n by (simp_all add: i_def j_def window_width_def window_height_def)
  have cursor: "unat (column_start chip) + i = unat (active_column chip)"
    "unat (row_start chip) + j = unat (active_row chip)"
    using n by (simp_all add: i_def j_def)
  have "raster_position chip (raster_index chip)
      = (unat (column_start chip) + i, unat (row_start chip) + j)"
    unfolding raster_position_def raster_index_def i_def [symmetric] j_def [symmetric]
    using i j by simp
  then show ?thesis
    by (simp only: cursor)
qed

lemma process_data_raster_position:
  "raster_position (process_data chip samples) k = raster_position chip k"
  using process_data_keeps [of chip samples]
  by (simp add: raster_position_def window_width_def window_height_def)


lemma sixteen_bit_not_max:
  fixes e :: "32 word"
  shows "e \<le> 0xFFFF \<Longrightarrow> e \<noteq> - 1"
proof
  assume "e \<le> 0xFFFF" and "e = - 1"
  moreover have "(- 1 :: 32 word) = 0xFFFFFFFF" by simp
  ultimately have "(0xFFFFFFFF :: 32 word) \<le> 0xFFFF" by (simp only:)
  then show False by simp
qed

text \<open>
  C6, as the code has it. The window bounds are 16-bit values, as the address-set
  commands and the reset leave them, and the cursor lies within the window. After \<open>N\<close>
  samples the cursor is the raster position number \<open>(k + N) mod A\<close> of the window, where
  \<open>A\<close> is the area of the window and \<open>k\<close> the raster index the cursor had before the
  samples; the row runs fastest when swap-axes is set, the column when it is clear. The
  cursor is in the window after every sample, for every \<open>N\<close>. When the cursor starts at
  the start of the window, \<open>k\<close> is 0 and the position is number \<open>N mod A\<close>.
\<close>

theorem cursor_raster_position:
  assumes "cursor_in_window chip"
    and "column_end chip \<le> 0xFFFF" and "row_end chip \<le> 0xFFFF"
  shows "(unat (active_column (process_data chip samples)),
          unat (active_row (process_data chip samples)))
           = raster_position chip ((raster_index chip + length samples) mod window_area chip)
     \<and> cursor_in_window (process_data chip samples)
     \<and> (active_column chip = column_start chip \<and> active_row chip = row_start chip \<longrightarrow>
          (unat (active_column (process_data chip samples)),
           unat (active_row (process_data chip samples)))
            = raster_position chip (length samples mod window_area chip))"
proof -
  note ne = sixteen_bit_not_max [OF assms(2)] sixteen_bit_not_max [OF assms(3)]
  have win: "cursor_in_window (process_data chip samples)"
    using assms(1) ne by (rule process_data_in_window)
  have "(unat (active_column (process_data chip samples)),
         unat (active_row (process_data chip samples)))
      = raster_position (process_data chip samples) (raster_index (process_data chip samples))"
    by (simp only: raster_position_of_index [OF win])
  also have "\<dots> = raster_position chip
      ((raster_index chip + length samples) mod window_area chip)"
    by (simp only: process_data_raster_position process_data_raster_index [OF assms(1) ne])
  finally have pos: "(unat (active_column (process_data chip samples)),
         unat (active_row (process_data chip samples)))
      = raster_position chip ((raster_index chip + length samples) mod window_area chip)" .
  have "active_column chip = column_start chip \<and> active_row chip = row_start chip \<longrightarrow>
      raster_index chip = 0"
    by (simp add: raster_index_def)
  with pos win show ?thesis
    by auto
qed

text \<open>
  The window of 2 by 3 pixels with the cursor at its raster index 3: five samples bring
  the cursor to index 2, column 5 of row 11.
\<close>

theorem cursor_raster_position_witness:
  "cursor_in_window window_chip
   \<and> column_end window_chip \<le> 0xFFFF \<and> row_end window_chip \<le> 0xFFFF
   \<and> raster_index window_chip = 3 \<and> window_area window_chip = 6
   \<and> (unat (active_column (process_data window_chip [1, 2, 3, 4, 5])),
       unat (active_row (process_data window_chip [1, 2, 3, 4, 5]))) = (5, 11)
   \<and> raster_position window_chip 2 = (5, 11)"
  using cursor_raster_position [of window_chip "[1, 2, 3, 4, 5]"]
  by (simp add: window_chip_def zero_chip_def cursor_in_window_def raster_index_def
      raster_position_def window_area_def window_width_def window_height_def
      process_data_body_def advance_cursor_def Let_def)

text \<open>
  C6 as stated fails when the cursor is within the window but not at its start: from
  column 6 of row 11 one sample brings the cursor to column 5 of row 12, and raster
  position number 1 of the window is column 6 of row 10.
\<close>

theorem cursor_not_at_start_counterexample:
  "cursor_in_window window_chip
   \<and> column_start window_chip \<le> column_end window_chip
   \<and> row_start window_chip \<le> row_end window_chip
   \<and> (unat (active_column (process_data window_chip [0])),
       unat (active_row (process_data window_chip [0])))
      \<noteq> raster_position window_chip (length [0 :: 16 word] mod window_area window_chip)
   \<and> (unat (active_column (process_data window_chip [0])),
       unat (active_row (process_data window_chip [0]))) = (5, 12)
   \<and> raster_position window_chip (length [0 :: 16 word] mod window_area window_chip) = (6, 10)"
  by (simp add: window_chip_def zero_chip_def cursor_in_window_def
      raster_position_def window_area_def window_width_def window_height_def
      process_data_body_def advance_cursor_def Let_def)

end
